theory Spec2Isabelle
  imports Complex_Main "HOL-Library.Sublist"
begin

section \<open>Strings\<close>

text \<open>
  A JavaScript string is modelled as a list of 8-bit characters (the code units
  U+0000 to U+00FF).  The helpers below are the built-in string methods that
  \<^verbatim>\<open>services/colorConverter.ts\<close> calls.
\<close>

text \<open>Characters are compared by their codes: \<^verbatim>\<open>0\<close> is 48, \<^verbatim>\<open>A\<close> is 65, \<^verbatim>\<open>a\<close> is 97.\<close>

definition code :: "char \<Rightarrow> nat" where
  "code c = of_char c"

definition isDigit :: "char \<Rightarrow> bool" where
  "isDigit c = (48 \<le> code c \<and> code c \<le> 57)"

text \<open>The class \<^verbatim>\<open>\s\<close> restricted to 8-bit characters: TAB, LF, VT, FF, CR, space, NBSP.\<close>

definition isSpace :: "char \<Rightarrow> bool" where
  "isSpace c = (code c \<in> {9, 10, 11, 12, 13, 32, 160})"

text \<open>
  \<^verbatim>\<open>toLowerCase\<close> on 8-bit characters: the letters A to Z and the upper-case letters of
  Latin-1 (U+00C0 to U+00DE without the multiplication sign) move up by 32.
\<close>

definition lowerChar :: "char \<Rightarrow> char" where
  "lowerChar c =
     (if (65 \<le> code c \<and> code c \<le> 90) \<or> (192 \<le> code c \<and> code c \<le> 222 \<and> code c \<noteq> 215)
      then char_of (code c + 32) else c)"

definition toLowerCase :: "string \<Rightarrow> string" where
  "toLowerCase s = map lowerChar s"

definition trim :: "string \<Rightarrow> string" where
  "trim s = rev (dropWhile isSpace (rev (dropWhile isSpace s)))"

definition startsWith :: "string \<Rightarrow> string \<Rightarrow> bool" where
  "startsWith s p = (take (length p) s = p)"

definition endsWith :: "string \<Rightarrow> string \<Rightarrow> bool" where
  "endsWith s p = (length p \<le> length s \<and> drop (length s - length p) s = p)"

text \<open>\<^verbatim>\<open>s.substring(i, j)\<close> for \<open>i \<le> j\<close>, the only way the program calls it.\<close>

definition substring :: "string \<Rightarrow> nat \<Rightarrow> nat \<Rightarrow> string" where
  "substring s i j = take (j - i) (drop i s)"

text \<open>\<^verbatim>\<open>s.padStart(n, '0')\<close>.\<close>

definition padStart0 :: "string \<Rightarrow> nat \<Rightarrow> string" where
  "padStart0 s n = replicate (n - length s) (CHR ''0'') @ s"

section \<open>Numbers\<close>

text \<open>
  A JavaScript number is modelled as an exact real or \<open>NaN\<close>.  The rounding of IEEE
  doubles, the infinities and the sign of zero are not modelled: a quotient by zero
  (which the program never forms on a parsed sample) is \<open>NaN\<close>.  Where a result of the
  program depends on that rounding the model can differ from it: the red channel of
  \<^verbatim>\<open>hsl(0, 100%, 5%)\<close> is 25.5 here and rounds to 26, where the doubles of the program
  give 25.499999999999996 and 25; the hue of \<^verbatim>\<open>#F87\<close> is 7.5 here and a little less in
  doubles; a numeral of more digits than a double holds is read exactly here; and a numeral
  of hundreds of digits is a finite number here and an infinity in the program.
\<close>

datatype number = NaN | Fin real

instantiation number :: "{plus, minus, times, inverse, ord}"
begin

definition plus_number :: "number \<Rightarrow> number \<Rightarrow> number" where
  "plus_number x y = (case (x, y) of (Fin p, Fin q) \<Rightarrow> Fin (p + q) | _ \<Rightarrow> NaN)"

definition minus_number :: "number \<Rightarrow> number \<Rightarrow> number" where
  "minus_number x y = (case (x, y) of (Fin p, Fin q) \<Rightarrow> Fin (p - q) | _ \<Rightarrow> NaN)"

definition times_number :: "number \<Rightarrow> number \<Rightarrow> number" where
  "times_number x y = (case (x, y) of (Fin p, Fin q) \<Rightarrow> Fin (p * q) | _ \<Rightarrow> NaN)"

definition divide_number :: "number \<Rightarrow> number \<Rightarrow> number" where
  "divide_number x y =
     (case (x, y) of (Fin p, Fin q) \<Rightarrow> (if q = 0 then NaN else Fin (p / q)) | _ \<Rightarrow> NaN)"

definition inverse_number :: "number \<Rightarrow> number" where
  "inverse_number x = (case x of Fin q \<Rightarrow> (if q = 0 then NaN else Fin (1 / q)) | NaN \<Rightarrow> NaN)"

text \<open>Comparisons with \<open>NaN\<close> are false.\<close>

definition less_number :: "number \<Rightarrow> number \<Rightarrow> bool" where
  "less_number x y = (case (x, y) of (Fin p, Fin q) \<Rightarrow> p < q | _ \<Rightarrow> False)"

definition less_eq_number :: "number \<Rightarrow> number \<Rightarrow> bool" where
  "less_eq_number x y = (case (x, y) of (Fin p, Fin q) \<Rightarrow> p \<le> q | _ \<Rightarrow> False)"

instance ..

end

definition Math_abs :: "number \<Rightarrow> number" where
  "Math_abs x = (case x of NaN \<Rightarrow> NaN | Fin p \<Rightarrow> Fin \<bar>p\<bar>)"

definition Math_max :: "number \<Rightarrow> number \<Rightarrow> number" where
  "Math_max x y = (case (x, y) of (Fin p, Fin q) \<Rightarrow> Fin (max p q) | _ \<Rightarrow> NaN)"

definition Math_min :: "number \<Rightarrow> number \<Rightarrow> number" where
  "Math_min x y = (case (x, y) of (Fin p, Fin q) \<Rightarrow> Fin (min p q) | _ \<Rightarrow> NaN)"

text \<open>\<^verbatim>\<open>Math.round\<close> rounds half up.\<close>

definition Math_round :: "number \<Rightarrow> number" where
  "Math_round x = (case x of NaN \<Rightarrow> NaN | Fin p \<Rightarrow> Fin (of_int \<lfloor>p + 1 / 2\<rfloor>))"

text \<open>\<^verbatim>\<open>Math.pow\<close> with a non-integer exponent, as the program calls it.\<close>

definition Math_pow :: "number \<Rightarrow> number \<Rightarrow> number" where
  "Math_pow x y =
     (case (x, y) of (Fin p, Fin q) \<Rightarrow> (if p < 0 then NaN else Fin (p powr q)) | _ \<Rightarrow> NaN)"

definition Math_cbrt :: "number \<Rightarrow> number" where
  "Math_cbrt x = (case x of NaN \<Rightarrow> NaN | Fin p \<Rightarrow> Fin (root 3 p))"

definition Math_sqrt :: "number \<Rightarrow> number" where
  "Math_sqrt x = (case x of NaN \<Rightarrow> NaN | Fin p \<Rightarrow> (if p < 0 then NaN else Fin (sqrt p)))"

definition Math_cos :: "number \<Rightarrow> number" where
  "Math_cos x = (case x of NaN \<Rightarrow> NaN | Fin p \<Rightarrow> Fin (cos p))"

definition Math_sin :: "number \<Rightarrow> number" where
  "Math_sin x = (case x of NaN \<Rightarrow> NaN | Fin p \<Rightarrow> Fin (sin p))"

definition Math_PI :: number where
  "Math_PI = Fin pi"

definition atan2_real :: "real \<Rightarrow> real \<Rightarrow> real" where
  "atan2_real y x =
     (if 0 < x then arctan (y / x)
      else if x < 0 \<and> 0 \<le> y then arctan (y / x) + pi
      else if x < 0 then arctan (y / x) - pi
      else if 0 < y then pi / 2
      else if y < 0 then - pi / 2
      else 0)"

definition Math_atan2 :: "number \<Rightarrow> number \<Rightarrow> number" where
  "Math_atan2 y x = (case (y, x) of (Fin q, Fin p) \<Rightarrow> Fin (atan2_real q p) | _ \<Rightarrow> NaN)"

text \<open>The remainder operator \<^verbatim>\<open>%\<close>: the quotient is truncated towards zero.\<close>

definition js_rem :: "number \<Rightarrow> number \<Rightarrow> number" where
  "js_rem x y =
     (case (x, y) of
        (Fin p, Fin q) \<Rightarrow>
          (if q = 0 then NaN
           else Fin (p - q * (sgn (p / q) * of_int \<lfloor>\<bar>p / q\<bar>\<rfloor>)))
      | _ \<Rightarrow> NaN)"

section \<open>Numbers and strings\<close>

definition digitChar :: "nat \<Rightarrow> char" where
  "digitChar n = ''0123456789abcdefghijklmnopqrstuvwxyz'' ! n"

text \<open>The digits of a natural number in a radix from 2 to 36.\<close>

fun showRadix :: "nat \<Rightarrow> nat \<Rightarrow> string" where
  "showRadix radix n =
     (if radix < 2 \<or> n < radix then [digitChar n]
      else showRadix radix (n div radix) @ [digitChar (n mod radix)])"

declare showRadix.simps [simp del]

text \<open>The value of an alphanumeric digit, as \<^verbatim>\<open>parseInt\<close> reads it.\<close>

definition digitVal :: "char \<Rightarrow> nat option" where
  "digitVal c =
     (if 48 \<le> code c \<and> code c \<le> 57 then Some (code c - 48)
      else if 97 \<le> code c \<and> code c \<le> 122 then Some (code c - 87)
      else if 65 \<le> code c \<and> code c \<le> 90 then Some (code c - 55)
      else None)"

definition isRadixDigit :: "nat \<Rightarrow> char \<Rightarrow> bool" where
  "isRadixDigit radix c = (case digitVal c of None \<Rightarrow> False | Some v \<Rightarrow> v < radix)"

definition digitsValue :: "nat \<Rightarrow> string \<Rightarrow> nat" where
  "digitsValue radix ds = foldl (\<lambda>acc c. acc * radix + the (digitVal c)) 0 ds"

text \<open>
  \<^verbatim>\<open>parseInt(str, radix)\<close>: leading white space and a sign are skipped, for radix 16
  a prefix \<^verbatim>\<open>0x\<close> too; the longest prefix of digits of the radix is read, and the result is
  \<open>NaN\<close> when there is none.
\<close>

definition parseInt :: "string \<Rightarrow> nat \<Rightarrow> number" where
  "parseInt str radix =
     (let s0 = dropWhile isSpace str;
          neg = (case s0 of [] \<Rightarrow> False | c # _ \<Rightarrow> c = CHR ''-'');
          s1 = (case s0 of [] \<Rightarrow> [] | c # t \<Rightarrow> if c = CHR ''-'' \<or> c = CHR ''+'' then t else s0);
          s2 = (if radix = 16 \<and> (take 2 s1 = ''0x'' \<or> take 2 s1 = ''0X'') then drop 2 s1 else s1);
          ds = takeWhile (isRadixDigit radix) s2
      in if ds = [] then NaN
         else Fin ((if neg then - 1 else 1) * real (digitsValue radix ds)))"

text \<open>
  \<^verbatim>\<open>parseFloat(str)\<close> on decimal literals without exponent (the capture groups that
  reach it hold digits, dots and a final \<^verbatim>\<open>%\<close> only): the longest prefix
  \<^verbatim>\<open>digits [. digits]\<close> or \<^verbatim>\<open>. digits\<close> is read; \<open>NaN\<close> when there is none.
\<close>

definition parseFloat :: "string \<Rightarrow> number" where
  "parseFloat str =
     (let s0 = dropWhile isSpace str;
          neg = (case s0 of [] \<Rightarrow> False | c # _ \<Rightarrow> c = CHR ''-'');
          s1 = (case s0 of [] \<Rightarrow> [] | c # t \<Rightarrow> if c = CHR ''-'' \<or> c = CHR ''+'' then t else s0);
          ip = takeWhile isDigit s1;
          s2 = dropWhile isDigit s1;
          fp = (case s2 of [] \<Rightarrow> [] | c # t \<Rightarrow> if c = CHR ''.'' then takeWhile isDigit t else [])
      in if ip = [] \<and> fp = [] then NaN
         else Fin ((if neg then - 1 else 1) *
                   (real (digitsValue 10 ip) + real (digitsValue 10 fp) / 10 ^ length fp)))"

text \<open>
  The decimal digits of a fraction in \<open>[0, 1)\<close>, at most \<open>k\<close> of them.
\<close>

fun fracDigits :: "nat \<Rightarrow> real \<Rightarrow> string" where
  "fracDigits 0 f = []"
| "fracDigits (Suc k) f =
     (if f = 0 then []
      else digitChar (nat \<lfloor>f * 10\<rfloor>) # fracDigits k (f * 10 - of_int \<lfloor>f * 10\<rfloor>))"

text \<open>
  \<^verbatim>\<open>String(x)\<close>, the conversion a template literal applies.  The program prints only
  integers (results of \<^verbatim>\<open>Math.round\<close>) and numbers with at most two decimals (results
  of \<^verbatim>\<open>parseFloat(x.toFixed(2))\<close>), below \<open>10\<^sup>2\<^sup>1\<close>; on those the digits below are the ones
  JavaScript prints.
\<close>

definition Number_toString :: "number \<Rightarrow> string" where
  "Number_toString v =
     (case v of
        NaN \<Rightarrow> ''NaN''
      | Fin x \<Rightarrow>
          (if x < 0 then ''-'' else []) @ showRadix 10 (nat \<lfloor>\<bar>x\<bar>\<rfloor>) @
          (if frac \<bar>x\<bar> = 0 then [] else CHR ''.'' # fracDigits 20 (frac \<bar>x\<bar>)))"

text \<open>\<^verbatim>\<open>n.toString(16)\<close> on an integer (the program applies it to \<^verbatim>\<open>Math.round(c)\<close>).\<close>

definition toString16 :: "number \<Rightarrow> string" where
  "toString16 v =
     (case v of
        NaN \<Rightarrow> ''NaN''
      | Fin x \<Rightarrow> (if x < 0 then ''-'' else []) @ showRadix 16 (nat \<lfloor>\<bar>x\<bar>\<rfloor>))"

text \<open>
  \<^verbatim>\<open>x.toFixed(d)\<close>: the integer nearest to \<open>x \<sqdot> 10\<^sup>d\<close> (the larger one on a tie), printed
  with \<open>d\<close> decimals; from \<open>10\<^sup>2\<^sup>1\<close> on JavaScript falls back to \<^verbatim>\<open>String(x)\<close>.
\<close>

definition toFixed :: "number \<Rightarrow> nat \<Rightarrow> string" where
  "toFixed v d =
     (case v of
        NaN \<Rightarrow> ''NaN''
      | Fin x \<Rightarrow>
          (if 10 ^ 21 \<le> \<bar>x\<bar> then Number_toString v
           else
             let ds = showRadix 10 (nat \<lfloor>\<bar>x\<bar> * 10 ^ d + 1 / 2\<rfloor>);
                 p = replicate (Suc d - length ds) (CHR ''0'') @ ds
             in (if x < 0 then ''-'' else []) @
                (if d = 0 then ds
                 else take (length p - d) p @ CHR ''.'' # drop (length p - d) p)))"

section \<open>Regular expressions\<close>

text \<open>
  The subset of JavaScript's regular expressions that the program uses, with the
  backtracking semantics of the language: \<open>run r (s, cs)\<close> lists, in the order in which
  the backtracking matcher tries them, the ways in which \<open>r\<close> matches a prefix of \<open>s\<close>; each
  result is the rest of the input with the captures made so far.  The head of the list is
  the match JavaScript reports.  An iteration of \<^verbatim>\<open>*\<close> that consumes nothing is not tried
  again, as in the language.
\<close>

datatype regex =
    Eps
  | Chr char
  | Class "char \<Rightarrow> bool"
  | Seq regex regex
  | Alt regex regex
  | Star regex
  | LazyStar regex
  | Group nat regex
  | Eol

type_synonym captures = "(nat \<times> string) list"

type_synonym mstate = "string \<times> captures"

fun run :: "regex \<Rightarrow> mstate \<Rightarrow> mstate list" where
  "run Eps st = [st]"
| "run (Chr c) (s, cs) = (case s of [] \<Rightarrow> [] | x # xs \<Rightarrow> if x = c then [(xs, cs)] else [])"
| "run (Class p) (s, cs) = (case s of [] \<Rightarrow> [] | x # xs \<Rightarrow> if p x then [(xs, cs)] else [])"
| "run (Seq r1 r2) st = concat (map (run r2) (run r1 st))"
| "run (Alt r1 r2) st = run r1 st @ run r2 st"
| "run (Star r) (s, cs) =
     concat (map (\<lambda>st'. if length (fst st') < length s then run (Star r) st' else [])
                 (run r (s, cs)))
     @ [(s, cs)]"
| "run (LazyStar r) (s, cs) =
     (s, cs) #
     concat (map (\<lambda>st'. if length (fst st') < length s then run (LazyStar r) st' else [])
                 (run r (s, cs)))"
| "run (Group k r) (s, cs) =
     map (\<lambda>(s', cs'). (s', (k, take (length s - length s') s) # cs')) (run r (s, cs))"
| "run Eol (s, cs) = (if s = [] then [(s, cs)] else [])"

text \<open>\<^verbatim>\<open>r+\<close>, \<^verbatim>\<open>r?\<close>, \<^verbatim>\<open>r{m,n}\<close>, a literal word and a sequence of parts.\<close>

definition Plus :: "regex \<Rightarrow> regex" where
  "Plus r = Seq r (Star r)"

definition Opt :: "regex \<Rightarrow> regex" where
  "Opt r = Alt r Eps"

fun Rep :: "nat \<Rightarrow> nat \<Rightarrow> regex \<Rightarrow> regex" where
  "Rep 0 0 r = Eps"
| "Rep 0 (Suc n) r = Opt (Seq r (Rep 0 n r))"
| "Rep (Suc m) n r = Seq r (Rep m (n - 1) r)"

fun Str :: "string \<Rightarrow> regex" where
  "Str [] = Eps"
| "Str (c # cs) = Seq (Chr c) (Str cs)"

fun Seqs :: "regex list \<Rightarrow> regex" where
  "Seqs [] = Eps"
| "Seqs (r # rs) = Seq r (Seqs rs)"

text \<open>
  The first match of an unanchored pattern: the text before it, the matched text, the
  text after it and the captures.  The pattern is tried at every index from the left,
  the end of the input included.
\<close>

fun exec :: "regex \<Rightarrow> string \<Rightarrow> (string \<times> string \<times> string \<times> captures) option" where
  "exec r [] =
     (case run r ([], []) of [] \<Rightarrow> None | (s', cs) # _ \<Rightarrow> Some ([], [], s', cs))"
| "exec r (x # xs) =
     (case run r (x # xs, []) of
        [] \<Rightarrow> map_option (\<lambda>(pre, m, post, cs). (x # pre, m, post, cs)) (exec r xs)
      | (s', cs) # _ \<Rightarrow> Some ([], take (length (x # xs) - length s') (x # xs), s', cs))"

text \<open>
  \<^verbatim>\<open>str.match(re)\<close> for a pattern without the \<^verbatim>\<open>g\<close> flag: \<open>None\<close> is \<^verbatim>\<open>null\<close>, and the
  array maps 0 to the matched text and \<open>k\<close> to group \<open>k\<close> (\<open>None\<close> is \<^verbatim>\<open>undefined\<close>).
\<close>

definition String_match :: "string \<Rightarrow> regex \<Rightarrow> (nat \<Rightarrow> string option) option" where
  "String_match s r =
     map_option (\<lambda>(pre, m, post, cs). (\<lambda>k. if k = 0 then Some m else map_of cs k)) (exec r s)"

text \<open>
  \<^verbatim>\<open>str.replace(re, template)\<close> for a pattern without the \<^verbatim>\<open>g\<close> flag; the template is
  given as a function of the captures.  \<open>replaceAtStart\<close> is the same for a pattern that
  begins with \<^verbatim>\<open>^\<close>, which is tried at index 0 only.
\<close>

definition replaceFirst :: "regex \<Rightarrow> (captures \<Rightarrow> string) \<Rightarrow> string \<Rightarrow> string" where
  "replaceFirst r tmpl s =
     (case exec r s of None \<Rightarrow> s | Some (pre, m, post, cs) \<Rightarrow> pre @ tmpl cs @ post)"

definition replaceAtStart :: "regex \<Rightarrow> (captures \<Rightarrow> string) \<Rightarrow> string \<Rightarrow> string" where
  "replaceAtStart r tmpl s =
     (case run r (s, []) of [] \<Rightarrow> s | (s', cs) # _ \<Rightarrow> tmpl cs @ s')"

text \<open>The template \<^verbatim>\<open>'$1'\<close>: group 1, or nothing when it did not take part.\<close>

definition dollar1 :: "captures \<Rightarrow> string" where
  "dollar1 cs = (case map_of cs 1 of None \<Rightarrow> [] | Some g \<Rightarrow> g)"

datatype error = TypeError

text \<open>
  \<^verbatim>\<open>str.replace(re, callback)\<close> for a pattern with the \<^verbatim>\<open>g\<close> flag: the matches are
  found from left to right, each search starting where the previous match ended (one
  character further after an empty match), and each is replaced by what the callback
  returns for the matched text.  An exception that the callback throws leaves the call.
\<close>

fun replaceAll :: "regex \<Rightarrow> (string \<Rightarrow> error + string) \<Rightarrow> string \<Rightarrow> error + string" where
  "replaceAll r f [] = (case run r ([], []) of [] \<Rightarrow> Inr [] | _ # _ \<Rightarrow> f [])"
| "replaceAll r f (x # xs) =
     (case run r (x # xs, []) of
        [] \<Rightarrow> (case replaceAll r f xs of Inl e \<Rightarrow> Inl e | Inr u \<Rightarrow> Inr (x # u))
      | (s', cs) # _ \<Rightarrow>
          (if length s' < length (x # xs)
           then (case f (take (length (x # xs) - length s') (x # xs)) of
                   Inl e \<Rightarrow> Inl e
                 | Inr t \<Rightarrow> (case replaceAll r f s' of Inl e \<Rightarrow> Inl e | Inr u \<Rightarrow> Inr (t @ u)))
           else (case f [] of
                   Inl e \<Rightarrow> Inl e
                 | Inr t \<Rightarrow>
                     (case replaceAll r f xs of Inl e \<Rightarrow> Inl e | Inr u \<Rightarrow> Inr (t @ x # u)))))"

section \<open>The colour converter\<close>

text \<open>
  The functions of \<^verbatim>\<open>services/colorConverter.ts\<close> (the revision that exports
  \<^verbatim>\<open>COLOR_REGEX\<close> and reads \<^verbatim>\<open>oklch()\<close>), in the order of the source.  A field
  \<^verbatim>\<open>a?: number\<close> is an \<open>option\<close>: \<open>None\<close> is \<^verbatim>\<open>undefined\<close>.  The field names carry
  the name of their interface, since the three interfaces share names.
\<close>

record RGB =
  rgb_r :: number
  rgb_g :: number
  rgb_b :: number
  rgb_a :: "number option"

record HSL =
  hsl_h :: number
  hsl_s :: number
  hsl_l :: number
  hsl_a :: "number option"

record Oklch =
  oklch_L :: number
  oklch_C :: number
  oklch_h :: number
  oklch_a :: "number option"

text \<open>
  \<^verbatim>\<open>format\<close> is the string the caller passes: TypeScript's union type is not checked
  when the program runs.
\<close>

record ConvertOptions =
  format :: string
  useCssSyntax :: bool

subsection \<open>Character classes and patterns\<close>

definition notParen :: "char \<Rightarrow> bool" where
  "notParen c = (c \<noteq> CHR '')'')"

definition isHexDigit :: "char \<Rightarrow> bool" where
  "isHexDigit c =
     ((97 \<le> code c \<and> code c \<le> 102) \<or> (65 \<le> code c \<and> code c \<le> 70) \<or>
      (48 \<le> code c \<and> code c \<le> 57))"

definition commaOrSpace :: "char \<Rightarrow> bool" where
  "commaOrSpace c = (c = CHR '','' \<or> isSpace c)"

definition commaQuestionOrSpace :: "char \<Rightarrow> bool" where
  "commaQuestionOrSpace c = (c = CHR '','' \<or> c = CHR ''?'' \<or> isSpace c)"

definition commaOrSlash :: "char \<Rightarrow> bool" where
  "commaOrSlash c = (c = CHR '','' \<or> c = CHR ''/'')"

definition digitOrDot :: "char \<Rightarrow> bool" where
  "digitOrDot c = (isDigit c \<or> c = CHR ''.'')"

text \<open>
  \<^verbatim>\<open>/(hsl(a?)\([^\)]+\))|(rgb(a?)\([^\)]+\))|(#[a-fA-F0-9]{3,8})|(oklch\([^\)]+\))/g\<close>
\<close>

definition COLOR_REGEX :: regex where
  "COLOR_REGEX =
     Alt (Group 1 (Seqs [Str ''hsl'', Group 2 (Opt (Chr (CHR ''a''))), Chr (CHR ''(''),
                         Plus (Class notParen), Chr (CHR '')'')]))
    (Alt (Group 3 (Seqs [Str ''rgb'', Group 4 (Opt (Chr (CHR ''a''))), Chr (CHR ''(''),
                         Plus (Class notParen), Chr (CHR '')'')]))
    (Alt (Group 5 (Seqs [Chr (CHR ''#''), Rep 3 8 (Class isHexDigit)]))
         (Group 6 (Seqs [Str ''oklch'', Chr (CHR ''(''),
                         Plus (Class notParen), Chr (CHR '')'')]))))"

text \<open>\<^verbatim>\<open>/rgba?\((\d+)[,\s]+(\d+)[,\s]+(\d+)(?:\s*[,\/]\s*([\d.]+))?\)/\<close>\<close>

definition rgbPattern :: regex where
  "rgbPattern =
     Seqs [Str ''rgb'', Opt (Chr (CHR ''a'')), Chr (CHR ''(''),
           Group 1 (Plus (Class isDigit)), Plus (Class commaOrSpace),
           Group 2 (Plus (Class isDigit)), Plus (Class commaOrSpace),
           Group 3 (Plus (Class isDigit)),
           Opt (Seqs [Star (Class isSpace), Class commaOrSlash, Star (Class isSpace),
                      Group 4 (Plus (Class digitOrDot))]),
           Chr (CHR '')'')]"

text \<open>
  \<^verbatim>\<open>/hsla?\((\d+)(?:deg)?[,?\s]+([\d.]+)%?[,\s]+([\d.]+)%?(?:\s*[,\/]\s*([\d.]+))?\)/\<close>
\<close>

definition hslPattern :: regex where
  "hslPattern =
     Seqs [Str ''hsl'', Opt (Chr (CHR ''a'')), Chr (CHR ''(''),
           Group 1 (Plus (Class isDigit)), Opt (Str ''deg''), Plus (Class commaQuestionOrSpace),
           Group 2 (Plus (Class digitOrDot)), Opt (Chr (CHR ''%'')), Plus (Class commaOrSpace),
           Group 3 (Plus (Class digitOrDot)), Opt (Chr (CHR ''%'')),
           Opt (Seqs [Star (Class isSpace), Class commaOrSlash, Star (Class isSpace),
                      Group 4 (Plus (Class digitOrDot))]),
           Chr (CHR '')'')]"

text \<open>
  \<^verbatim>\<open>/oklch\(\s*([\d.]+)%?\s+([\d.]+)\s+([\d.]+)(?:deg)?(?:\s*\/\s*([\d.]+%?))?\s*\)/\<close>
\<close>

definition oklchPattern :: regex where
  "oklchPattern =
     Seqs [Str ''oklch'', Chr (CHR ''(''), Star (Class isSpace),
           Group 1 (Plus (Class digitOrDot)), Opt (Chr (CHR ''%'')), Plus (Class isSpace),
           Group 2 (Plus (Class digitOrDot)), Plus (Class isSpace),
           Group 3 (Plus (Class digitOrDot)), Opt (Str ''deg''),
           Opt (Seqs [Star (Class isSpace), Chr (CHR ''/''), Star (Class isSpace),
                      Group 4 (Seqs [Plus (Class digitOrDot), Opt (Chr (CHR ''%''))])]),
           Star (Class isSpace), Chr (CHR '')'')]"

subsection \<open>Parsing\<close>

text \<open>A group that took part in the match (groups 1 to 3 of the patterns always do).\<close>

definition grp :: "(nat \<Rightarrow> string option) \<Rightarrow> nat \<Rightarrow> string" where
  "grp m k = (case m k of None \<Rightarrow> [] | Some g \<Rightarrow> g)"

definition hexToRgb :: "string \<Rightarrow> RGB option" where
  "hexToRgb hex0 =
     (let hex1 = replaceAtStart (Chr (CHR ''#'')) (\<lambda>cs. []) hex0;
          hex = (if length hex1 = 4
                 then [hex1 ! 0, hex1 ! 0, hex1 ! 1, hex1 ! 1, hex1 ! 2, hex1 ! 2, hex1 ! 3, hex1 ! 3]
                 else if length hex1 = 3
                 then [hex1 ! 0, hex1 ! 0, hex1 ! 1, hex1 ! 1, hex1 ! 2, hex1 ! 2]
                 else hex1)
      in if length hex \<noteq> 6 \<and> length hex \<noteq> 8 then None
         else
           let r = parseInt (substring hex 0 2) 16;
               g = parseInt (substring hex 2 4) 16;
               b = parseInt (substring hex 4 6) 16
           in if length hex = 8
              then Some \<lparr>rgb_r = r, rgb_g = g, rgb_b = b,
                         rgb_a = Some (parseInt (substring hex 6 8) 16 / Fin 255)\<rparr>
              else Some \<lparr>rgb_r = r, rgb_g = g, rgb_b = b, rgb_a = None\<rparr>)"

definition rgbStringToRgb :: "string \<Rightarrow> RGB option" where
  "rgbStringToRgb rgbStr =
     (case String_match rgbStr rgbPattern of
        None \<Rightarrow> None
      | Some m \<Rightarrow>
          Some \<lparr>rgb_r = parseInt (grp m 1) 10,
                rgb_g = parseInt (grp m 2) 10,
                rgb_b = parseInt (grp m 3) 10,
                rgb_a = (case m 4 of None \<Rightarrow> None | Some g4 \<Rightarrow> Some (parseFloat g4))\<rparr>)"

definition hslStringToRgb :: "string \<Rightarrow> RGB option" where
  "hslStringToRgb hslStr =
     (case String_match hslStr hslPattern of
        None \<Rightarrow> None
      | Some match \<Rightarrow>
          let h = parseInt (grp match 1) 10;
              s = parseFloat (grp match 2) / Fin 100;
              l = parseFloat (grp match 3) / Fin 100;
              a = (case match 4 of None \<Rightarrow> None | Some g4 \<Rightarrow> Some (parseFloat g4));
              c = (Fin 1 - Math_abs (Fin 2 * l - Fin 1)) * s;
              x = c * (Fin 1 - Math_abs (js_rem (h / Fin 60) (Fin 2) - Fin 1));
              m = l - c / Fin 2;
              (r, g, b) =
                (if Fin 0 \<le> h \<and> h < Fin 60 then (c, x, Fin 0)
                 else if Fin 60 \<le> h \<and> h < Fin 120 then (x, c, Fin 0)
                 else if Fin 120 \<le> h \<and> h < Fin 180 then (Fin 0, c, x)
                 else if Fin 180 \<le> h \<and> h < Fin 240 then (Fin 0, x, c)
                 else if Fin 240 \<le> h \<and> h < Fin 300 then (x, Fin 0, c)
                 else if Fin 300 \<le> h \<and> h < Fin 360 then (c, Fin 0, x)
                 else (Fin 0, Fin 0, Fin 0))
          in Some \<lparr>rgb_r = Math_round ((r + m) * Fin 255),
                   rgb_g = Math_round ((g + m) * Fin 255),
                   rgb_b = Math_round ((b + m) * Fin 255),
                   rgb_a = a\<rparr>)"

subsection \<open>From oklch to sRGB\<close>

definition oklchToOklab :: "Oklch \<Rightarrow> number \<times> number \<times> number" where
  "oklchToOklab oklch =
     (let rad = oklch_h oklch * (Math_PI / Fin 180)
      in (oklch_L oklch, oklch_C oklch * Math_cos rad, oklch_C oklch * Math_sin rad))"

definition linearRgbToSrgb :: "number \<Rightarrow> number" where
  "linearRgbToSrgb c =
     (let v = Math_max (Fin 0) (Math_min (Fin 1) c);
          srgb = (if v \<le> Fin 0.0031308 then Fin 12.92 * v
                  else Fin 1.055 * Math_pow v (Fin 1 / Fin 2.4) - Fin 0.055)
      in Math_round (srgb * Fin 255))"

definition oklchStringToRgb :: "string \<Rightarrow> RGB option" where
  "oklchStringToRgb oklchStr =
     (case String_match oklchStr oklchPattern of
        None \<Rightarrow> None
      | Some match \<Rightarrow>
          let oklch = \<lparr>oklch_L = parseFloat (grp match 1) / Fin 100.0,
                       oklch_C = parseFloat (grp match 2),
                       oklch_h = parseFloat (grp match 3),
                       oklch_a =
                         (case match 4 of
                            None \<Rightarrow> None
                          | Some alphaStr \<Rightarrow>
                              if endsWith alphaStr ''%''
                              then Some (parseFloat alphaStr / Fin 100.0)
                              else Some (parseFloat alphaStr))\<rparr>;
              (okL, oka, okb) = oklchToOklab oklch;
              l' = okL + Fin 0.3963377774 * oka + Fin 0.2158037573 * okb;
              m' = okL - Fin 0.1055613458 * oka - Fin 0.0638541728 * okb;
              s' = okL - Fin 0.0894841775 * oka - Fin 1.2914855480 * okb;
              l = l' * l' * l';
              m = m' * m' * m';
              s = s' * s' * s';
              lr = Fin 4.0767416621 * l - Fin 3.3077115913 * m + Fin 0.2309699292 * s;
              lg = Fin (- 1.2684380046) * l + Fin 2.6097574011 * m - Fin 0.3413193965 * s;
              lb = Fin (- 0.0041960863) * l - Fin 0.7034186147 * m + Fin 1.7076147010 * s
          in Some \<lparr>rgb_r = linearRgbToSrgb lr, rgb_g = linearRgbToSrgb lg,
                   rgb_b = linearRgbToSrgb lb, rgb_a = oklch_a oklch\<rparr>)"

subsection \<open>From sRGB to the target notations\<close>

definition toHex :: "number \<Rightarrow> string" where
  "toHex c = padStart0 (toString16 (Math_round c)) 2"

definition rgbToHex :: "RGB \<Rightarrow> string" where
  "rgbToHex rgb =
     (let hex = toHex (rgb_r rgb) @ toHex (rgb_g rgb) @ toHex (rgb_b rgb)
      in case rgb_a rgb of
           None \<Rightarrow> hex
         | Some a \<Rightarrow> if a < Fin 1 then hex @ toHex (a * Fin 255) else hex)"

text \<open>
  The \<^verbatim>\<open>switch (max)\<close> compares with \<^verbatim>\<open>===\<close> and takes the first case that is equal;
  with \<open>NaN\<close> none is and \<open>h\<close> stays 0.
\<close>

definition strictEq :: "number \<Rightarrow> number \<Rightarrow> bool" where
  "strictEq x y = (x \<noteq> NaN \<and> y \<noteq> NaN \<and> x = y)"

definition rgbToHsl :: "RGB \<Rightarrow> HSL" where
  "rgbToHsl rgb =
     (let r = rgb_r rgb / Fin 255; g = rgb_g rgb / Fin 255; b = rgb_b rgb / Fin 255;
          mx = Math_max (Math_max r g) b; mn = Math_min (Math_min r g) b;
          l = (mx + mn) / Fin 2;
          (h, s) =
            (if \<not> strictEq mx mn then
               let d = mx - mn;
                   s1 = (if Fin 0.5 < l then d / (Fin 2 - mx - mn) else d / (mx + mn));
                   h1 = (if strictEq mx r then (g - b) / d + (if g < b then Fin 6 else Fin 0)
                         else if strictEq mx g then (b - r) / d + Fin 2
                         else if strictEq mx b then (r - g) / d + Fin 4
                         else Fin 0)
               in (h1 / Fin 6, s1)
             else (Fin 0, Fin 0))
      in \<lparr>hsl_h = h * Fin 360, hsl_s = s * Fin 100, hsl_l = l * Fin 100, hsl_a = rgb_a rgb\<rparr>)"

definition srgbToLinearRgb :: "number \<Rightarrow> number" where
  "srgbToLinearRgb c =
     (let v = c / Fin 255
      in if v \<le> Fin 0.04045 then v / Fin 12.92
         else Math_pow ((v + Fin 0.055) / Fin 1.055) (Fin 2.4))"

definition linearRgbToXyz :: "number \<Rightarrow> number \<Rightarrow> number \<Rightarrow> number \<times> number \<times> number" where
  "linearRgbToXyz r g b =
     (r * Fin 0.4124564 + g * Fin 0.3575761 + b * Fin 0.1804375,
      r * Fin 0.2126729 + g * Fin 0.7151522 + b * Fin 0.0721750,
      r * Fin 0.0193339 + g * Fin 0.1191920 + b * Fin 0.9503041)"

definition xyzToOklab :: "number \<Rightarrow> number \<Rightarrow> number \<Rightarrow> number \<times> number \<times> number" where
  "xyzToOklab x y z =
     (let l = Fin 0.4122214708 * x + Fin 0.5363325363 * y + Fin 0.0514459929 * z;
          m = Fin 0.2119034982 * x + Fin 0.6806995451 * y + Fin 0.1073969566 * z;
          s = Fin 0.0883024619 * x + Fin 0.2817188376 * y + Fin 0.6299787005 * z;
          l' = Math_cbrt l;
          m' = Math_cbrt m;
          s' = Math_cbrt s
      in (Fin 0.2104542553 * l' + Fin 0.7936177850 * m' - Fin 0.0040720468 * s',
          Fin 1.9779984951 * l' - Fin 2.4285922050 * m' + Fin 0.4505937099 * s',
          Fin 0.0259040371 * l' + Fin 0.7827717662 * m' - Fin 0.8086757660 * s'))"

definition oklabToOklch :: "number \<Rightarrow> number \<Rightarrow> number \<Rightarrow> Oklch" where
  "oklabToOklch L a b =
     (let C = Math_sqrt (a * a + b * b);
          h0 = Math_atan2 b a * (Fin 180 / Math_PI);
          h = (if h0 < Fin 0 then h0 + Fin 360 else h0)
      in \<lparr>oklch_L = L, oklch_C = C, oklch_h = h, oklch_a = None\<rparr>)"

definition rgbToOklch :: "RGB \<Rightarrow> Oklch" where
  "rgbToOklch rgb =
     (let linearR = srgbToLinearRgb (rgb_r rgb);
          linearG = srgbToLinearRgb (rgb_g rgb);
          linearB = srgbToLinearRgb (rgb_b rgb);
          (x, y, z) = linearRgbToXyz linearR linearG linearB;
          (L, a, b) = xyzToOklab x y z;
          oklch = oklabToOklch L a b
      in case rgb_a rgb of None \<Rightarrow> oklch | Some al \<Rightarrow> oklch\<lparr>oklch_a := Some al\<rparr>)"

subsection \<open>Formatting\<close>

text \<open>
  The patterns of the formatters: \<^verbatim>\<open>/\.00$/\<close>, \<^verbatim>\<open>/(\.\d*?)0+$/\<close>, \<^verbatim>\<open>/\.$/\<close>,
  \<^verbatim>\<open>/0+$/\<close>, \<^verbatim>\<open>/^0\./\<close> (tried at index 0 by \<open>replaceAtStart\<close>) and \<^verbatim>\<open>/\.0$/\<close>.
\<close>

definition dot00End :: regex where
  "dot00End = Seqs [Str ''.00'', Eol]"

definition trailingZeros :: regex where
  "trailingZeros =
     Seqs [Group 1 (Seqs [Chr (CHR ''.''), LazyStar (Class isDigit)]),
           Plus (Chr (CHR ''0'')), Eol]"

definition dotEnd :: regex where
  "dotEnd = Seqs [Str ''.'', Eol]"

definition zerosEnd :: regex where
  "zerosEnd = Seqs [Plus (Chr (CHR ''0'')), Eol]"

definition zeroDot :: regex where
  "zeroDot = Str ''0.''"

definition dot0End :: regex where
  "dot0End = Seqs [Str ''.0'', Eol]"

definition formatOklch :: "Oklch \<Rightarrow> bool \<Rightarrow> string" where
  "formatOklch oklch css =
     (let l = replaceFirst dot00End (\<lambda>cs. []) (toFixed (oklch_L oklch * Fin 100) 2);
          c = replaceFirst dotEnd (\<lambda>cs. [])
                (replaceFirst trailingZeros dollar1 (toFixed (oklch_C oklch) 4));
          h = replaceFirst dot00End (\<lambda>cs. []) (toFixed (oklch_h oklch) 2);
          alphaPart =
            (case oklch_a oklch of
               None \<Rightarrow> []
             | Some al \<Rightarrow>
                 if al < Fin 1
                 then '' / '' @
                      replaceAtStart zeroDot (\<lambda>cs. ''.'')
                        (replaceFirst dotEnd (\<lambda>cs. [])
                           (replaceFirst zerosEnd (\<lambda>cs. []) (toFixed al 2)))
                 else [])
      in if css then ''oklch('' @ l @ ''% '' @ c @ '' '' @ h @ alphaPart @ '')''
         else l @ '' '' @ c @ '' '' @ h @ alphaPart)"

subsection \<open>The exported function\<close>

text \<open>
  The body of the callback is split at its three steps: the choice of a parser by the
  prefix of the cleaned match, the clamping of the channels, and the \<^verbatim>\<open>switch\<close> on the
  output format.
\<close>

definition parseColor :: "string \<Rightarrow> RGB option" where
  "parseColor cleanedMatch =
     (if startsWith cleanedMatch ''#'' then hexToRgb cleanedMatch
      else if startsWith cleanedMatch ''rgb'' then rgbStringToRgb cleanedMatch
      else if startsWith cleanedMatch ''hsl'' then hslStringToRgb cleanedMatch
      else if startsWith cleanedMatch ''oklch'' then oklchStringToRgb cleanedMatch
      else None)"

definition clampRgb :: "RGB \<Rightarrow> RGB" where
  "clampRgb rgb =
     \<lparr>rgb_r = Math_max (Fin 0) (Math_min (Fin 255) (rgb_r rgb)),
      rgb_g = Math_max (Fin 0) (Math_min (Fin 255) (rgb_g rgb)),
      rgb_b = Math_max (Fin 0) (Math_min (Fin 255) (rgb_b rgb)),
      rgb_a = rgb_a rgb\<rparr>"

definition formatColor :: "ConvertOptions \<Rightarrow> string \<Rightarrow> RGB \<Rightarrow> string" where
  "formatColor options match rgb =
     (if format options = ''oklch'' then formatOklch (rgbToOklch rgb) (useCssSyntax options)
      else if format options = ''hex'' then
        (if useCssSyntax options then ''#'' else []) @ rgbToHex rgb
      else if format options = ''rgb'' then
        (let r = Number_toString (Math_round (rgb_r rgb));
             g = Number_toString (Math_round (rgb_g rgb));
             b = Number_toString (Math_round (rgb_b rgb))
         in case (case rgb_a rgb of None \<Rightarrow> None | Some al \<Rightarrow> if al < Fin 1 then Some al else None) of
              Some al \<Rightarrow>
                (let a = Number_toString (parseFloat (toFixed al 2))
                 in if useCssSyntax options
                    then ''rgba('' @ r @ '', '' @ g @ '', '' @ b @ '', '' @ a @ '')''
                    else r @ '' '' @ g @ '' '' @ b @ '' / '' @ a)
            | None \<Rightarrow>
                (if useCssSyntax options then ''rgb('' @ r @ '', '' @ g @ '', '' @ b @ '')''
                 else r @ '' '' @ g @ '' '' @ b))
      else if format options = ''hsl'' then
        (let hsl = rgbToHsl rgb;
             h = toFixed (hsl_h hsl) 0;
             s = replaceFirst dot0End (\<lambda>cs. []) (toFixed (hsl_s hsl) 1);
             l = replaceFirst dot0End (\<lambda>cs. []) (toFixed (hsl_l hsl) 1)
         in case (case hsl_a hsl of None \<Rightarrow> None | Some al \<Rightarrow> if al < Fin 1 then Some al else None) of
              Some al \<Rightarrow>
                (let a = Number_toString (parseFloat (toFixed al 2))
                 in if useCssSyntax options
                    then ''hsla('' @ h @ '', '' @ s @ ''%, '' @ l @ ''%, '' @ a @ '')''
                    else h @ '' '' @ s @ '' '' @ l @ '' / '' @ a)
            | None \<Rightarrow>
                (if useCssSyntax options then ''hsl('' @ h @ '', '' @ s @ ''%, '' @ l @ ''%)''
                 else h @ '' '' @ s @ '' '' @ l))
      else match)"

text \<open>
  The body of the \<^verbatim>\<open>try\<close> block.  \<open>None\<close> for the options is a caller that passes
  \<^verbatim>\<open>null\<close> or \<^verbatim>\<open>undefined\<close>: reading \<^verbatim>\<open>options.format\<close> then throws.
\<close>

definition convertMatch :: "ConvertOptions option \<Rightarrow> string \<Rightarrow> error + string" where
  "convertMatch options match =
     (let cleanedMatch = trim (toLowerCase match)
      in case parseColor cleanedMatch of
           None \<Rightarrow> Inr match
         | Some rgb \<Rightarrow>
             (case options of
                None \<Rightarrow> Inl TypeError
              | Some opts \<Rightarrow> Inr (formatColor opts match (clampRgb rgb))))"

text \<open>The callback: the \<^verbatim>\<open>try\<close> block with its \<^verbatim>\<open>catch\<close>, which returns the match.\<close>

definition convertCallback :: "ConvertOptions option \<Rightarrow> string \<Rightarrow> error + string" where
  "convertCallback options match =
     (case convertMatch options match of Inl e \<Rightarrow> Inr match | Inr t \<Rightarrow> Inr t)"

definition convertCssColors :: "string \<Rightarrow> ConvertOptions option \<Rightarrow> error + string" where
  "convertCssColors cssString options =
     (if cssString = [] then Inr []
      else replaceAll COLOR_REGEX (convertCallback options) cssString)"

section \<open>Tokens and samples\<close>

text \<open>
  The tokens of a text, as \<^verbatim>\<open>text.matchAll(COLOR_REGEX)\<close> finds them, with the
  characters between them: the scan of \<open>replaceAll\<close> without the callback.
\<close>

datatype segment = Gap char | Tok string

fun segments :: "regex \<Rightarrow> string \<Rightarrow> segment list" where
  "segments r [] = (case run r ([], []) of [] \<Rightarrow> [] | _ # _ \<Rightarrow> [Tok []])"
| "segments r (x # xs) =
     (case run r (x # xs, []) of
        [] \<Rightarrow> Gap x # segments r xs
      | (s', cs) # _ \<Rightarrow>
          (if length s' < length (x # xs)
           then Tok (take (length (x # xs) - length s') (x # xs)) # segments r s'
           else Tok [] # Gap x # segments r xs))"

fun segText :: "segment \<Rightarrow> string" where
  "segText (Gap c) = [c]"
| "segText (Tok m) = m"

text \<open>What the callback puts in the place of a token.\<close>

definition tokenOutput :: "ConvertOptions option \<Rightarrow> string \<Rightarrow> string" where
  "tokenOutput options match =
     (case convertMatch options match of Inl e \<Rightarrow> match | Inr t \<Rightarrow> t)"

fun segOutput :: "ConvertOptions option \<Rightarrow> segment \<Rightarrow> string" where
  "segOutput options (Gap c) = [c]"
| "segOutput options (Tok m) = tokenOutput options m"

text \<open>
  The sample that the \<^verbatim>\<open>switch\<close> on the output format receives for a matched token:
  the parsed sample after the clamping step.
\<close>

definition sampleAtFormatter :: "string \<Rightarrow> RGB option" where
  "sampleAtFormatter match = map_option clampRgb (parseColor (trim (toLowerCase match)))"



section \<open>The notations in the words of the specification\<close>




section \<open>The rgb pattern as a scanner\<close>

text \<open>
  A deterministic reading of \<open>rgbPattern\<close> from the opening parenthesis on, proved below to
  give the results of the matcher: three runs of digits separated by runs of commas and
  white space, then either the alpha part (white space, a comma or a slash, white space,
  a run of digits and dots) and the closing parenthesis, or the closing parenthesis alone.
\<close>

definition scanClose :: "string \<Rightarrow> captures \<Rightarrow> mstate list" where
  "scanClose s cs = (case s of [] \<Rightarrow> [] | x # t \<Rightarrow> if x = CHR '')'' then [(t, cs)] else [])"

definition scanAlpha :: "string \<Rightarrow> captures \<Rightarrow> mstate list" where
  "scanAlpha s cs =
     (case dropWhile isSpace s of
        [] \<Rightarrow> []
      | x # t \<Rightarrow>
          if commaOrSlash x
          then (let u = dropWhile isSpace t
                in if takeWhile digitOrDot u = [] then []
                   else scanClose (dropWhile digitOrDot u) ((4, takeWhile digitOrDot u) # cs))
          else [])"

definition scanChannels :: "string \<Rightarrow> captures \<Rightarrow> mstate list" where
  "scanChannels s cs =
     (let g1 = takeWhile isDigit s; s1 = dropWhile isDigit s;
          s2 = dropWhile commaOrSpace s1;
          g2 = takeWhile isDigit s2; s3 = dropWhile isDigit s2;
          s4 = dropWhile commaOrSpace s3;
          g3 = takeWhile isDigit s4; s5 = dropWhile isDigit s4;
          cs3 = (3, g3) # (2, g2) # (1, g1) # cs
      in if g1 = [] \<or> takeWhile commaOrSpace s1 = [] \<or> g2 = [] \<or>
            takeWhile commaOrSpace s3 = [] \<or> g3 = []
         then []
         else scanAlpha s5 cs3 @ scanClose s5 cs3)"

definition scanRgb :: "string \<Rightarrow> captures \<Rightarrow> mstate list" where
  "scanRgb s cs =
     (if prefix ''rgba('' s then scanChannels (drop 5 s) cs
      else if prefix ''rgb('' s then scanChannels (drop 4 s) cs
      else [])"

text \<open>The text that the rgb formatter prints for an opaque sample with channels \<open>r\<close>, \<open>g\<close>, \<open>b\<close>.\<close>

definition rgbText :: "nat \<Rightarrow> nat \<Rightarrow> nat \<Rightarrow> string" where
  "rgbText r g b = ''rgb('' @ showRadix 10 r @ '', '' @ showRadix 10 g @ '', '' @ showRadix 10 b @ '')''"

section \<open>The text of an rgb token with signs, decimal points and percent signs\<close>

text \<open>
  An rgb token as a stylesheet can write it: the keyword, three channels separated by
  commas or white space, and an optional alpha part.  A channel is a numeral made of
  digits, minus signs and decimal points; the alpha part is white space, a comma or a
  slash, white space, digits and dots, and possibly a percent sign.
\<close>

definition isChannelText :: "string \<Rightarrow> bool" where
  "isChannelText c = (c \<noteq> [] \<and> list_all (\<lambda>x. isDigit x \<or> x = CHR ''-'' \<or> x = CHR ''.'') c)"

definition isSeparator :: "string \<Rightarrow> bool" where
  "isSeparator s = (s \<noteq> [] \<and> list_all commaOrSpace s)"

definition isAlphaText :: "string \<Rightarrow> bool" where
  "isAlphaText al =
     (al = [] \<or>
      (case dropWhile isSpace al of
         [] \<Rightarrow> False
       | x # t \<Rightarrow>
           commaOrSlash x \<and>
           (let u = dropWhile isSpace t
            in takeWhile digitOrDot u \<noteq> [] \<and>
               (dropWhile digitOrDot u = [] \<or> dropWhile digitOrDot u = ''%''))))"

definition rgbTokenText ::
  "string \<Rightarrow> string \<Rightarrow> string \<Rightarrow> string \<Rightarrow> string \<Rightarrow> string \<Rightarrow> string \<Rightarrow> string" where
  "rgbTokenText kw c1 s1 c2 s2 c3 al = kw @ ''('' @ c1 @ s1 @ c2 @ s2 @ c3 @ al @ '')''"

text \<open>
  What a capture group of the rgb pattern can hold: an unsigned decimal integer (groups 1
  to 3), or digits and dots (group 4).
\<close>

definition isUnsignedInteger :: "string \<Rightarrow> bool" where
  "isUnsignedInteger g = (g \<noteq> [] \<and> list_all isDigit g)"

definition isDigitsAndDots :: "string \<Rightarrow> bool" where
  "isDigitsAndDots g = (g \<noteq> [] \<and> list_all digitOrDot g)"

text \<open>
  An rgb token as the tokenizer cuts it: the keyword, an opening parenthesis, a body without
  closing parenthesis, and the closing parenthesis.  The numerals of a body are its maximal
  runs of digits and dots; the first three are its channels.
\<close>

definition rgbToken :: "string \<Rightarrow> string \<Rightarrow> string" where
  "rgbToken kw body = kw @ ''('' @ body @ '')''"

fun numeralsFrom :: "string \<Rightarrow> string \<Rightarrow> string list" where
  "numeralsFrom cur [] = (if cur = [] then [] else [cur])"
| "numeralsFrom cur (x # xs) =
     (if digitOrDot x then numeralsFrom (cur @ [x]) xs
      else (if cur = [] then [] else [cur]) @ numeralsFrom [] xs)"

definition numerals :: "string \<Rightarrow> string list" where
  "numerals s = numeralsFrom [] s"

definition hasDecimalChannel :: "string \<Rightarrow> bool" where
  "hasDecimalChannel body = list_ex (\<lambda>n. CHR ''.'' \<in> set n) (take 3 (numerals body))"



section \<open>Properties of the matcher\<close>

text \<open>Every result of the matcher is the input with a prefix removed.\<close>

lemma run_suffix: "st' \<in> set (run r st) \<Longrightarrow> suffix (fst st') (fst st)"
proof (induction r st arbitrary: st' rule: run.induct)
  case (1 st)
  then show ?case by simp
next
  case (2 c s cs)
  then show ?case by (cases s) (auto split: if_splits simp: suffix_Cons)
next
  case (3 p s cs)
  then show ?case by (cases s) (auto split: if_splits simp: suffix_Cons)
next
  case (4 r1 r2 st)
  from "4.prems" obtain mid where m: "mid \<in> set (run r1 st)" "st' \<in> set (run r2 mid)"
    by auto
  from "4.IH"(1)[OF m(1)] "4.IH"(2)[OF m(1) m(2)] show ?case
    by (rule suffix_order.trans[rotated])
next
  case (5 r1 r2 st)
  from "5.prems" have "st' \<in> set (run r1 st) \<or> st' \<in> set (run r2 st)" by simp
  then show ?case using "5.IH" by blast
next
  case (6 r s cs)
  from "6.prems" consider
    (iter) mid where "mid \<in> set (run r (s, cs))" "length (fst mid) < length s" "st' \<in> set (run (Star r) mid)"
    | (stop) "st' = (s, cs)"
    by (auto split: if_splits)
  then show ?case
  proof cases
    case iter
    from "6.IH"(1)[OF iter(1)] "6.IH"(2)[OF iter(1) iter(2) iter(3)] show ?thesis
      by (simp add: suffix_order.trans)
  next
    case stop
    then show ?thesis by simp
  qed
next
  case (7 r s cs)
  from "7.prems" consider
    (iter) mid where "mid \<in> set (run r (s, cs))" "length (fst mid) < length s" "st' \<in> set (run (LazyStar r) mid)"
    | (stop) "st' = (s, cs)"
    by (auto split: if_splits)
  then show ?case
  proof cases
    case iter
    from "7.IH"(1)[OF iter(1)] "7.IH"(2)[OF iter(1) iter(2) iter(3)] show ?thesis
      by (simp add: suffix_order.trans)
  next
    case stop
    then show ?thesis by simp
  qed
next
  case (8 k r s cs)
  then show ?case by auto
next
  case (9 s cs)
  then show ?case by (auto split: if_splits)
qed

lemma run_head_split:
  assumes "run r (s, cs) = (s', cs') # rest"
  shows "take (length s - length s') s @ s' = s"
proof -
  have "suffix s' s" using run_suffix[of "(s', cs')" r "(s, cs)"] assms by simp
  then obtain w where "s = w @ s'" by (auto simp: suffix_def)
  then show ?thesis by simp
qed

lemma replaceAll_Inr: "replaceAll r Inr s = Inr s"
proof (induction r "Inr :: string \<Rightarrow> error + string" s rule: replaceAll.induct)
  case (1 r)
  then show ?case by (simp split: list.splits)
next
  case (2 r x xs)
  show ?case
  proof (cases "run r (x # xs, [])")
    case Nil
    then show ?thesis using 2 by simp
  next
    case (Cons a rest)
    obtain s' cs' where a: "a = (s', cs')" by (cases a)
    show ?thesis
    proof (cases "length s' < length (x # xs)")
      case True
      have "replaceAll r Inr s' = Inr s'"
        using "2.hyps"(2)[OF Cons[unfolded a] refl True] by simp
      with True Cons a run_head_split[OF Cons[unfolded a]]
      show ?thesis by simp
    next
      case False
      have "replaceAll r Inr xs = Inr xs"
        using "2.hyps"(3)[OF Cons[unfolded a] refl False] by simp
      with False Cons a show ?thesis by simp
    qed
  qed
qed

lemma replaceAll_id: "(\<And>m. f m = Inr m) \<Longrightarrow> replaceAll r f s = Inr s"
proof -
  assume "\<And>m. f m = Inr m"
  then have "f = Inr" by (intro ext)
  then show ?thesis by (simp add: replaceAll_Inr)
qed

text \<open>Sequences: associativity, and a literal word at the head of a sequence.\<close>

lemma concat_map_concat: "concat (map f (concat xss)) = concat (map (\<lambda>xs. concat (map f xs)) xss)"
  by (induction xss) auto

lemma run_Seq_assoc: "run (Seq (Seq a b) K) st = run (Seq a (Seq b K)) st"
proof -
  have "run (Seq b K) = (\<lambda>x. concat (map (run K) (run b x)))"
    by (rule ext) simp
  then show ?thesis
    by (simp add: concat_map_concat comp_def)
qed

lemma run_Seq_Eps: "run (Seq Eps K) st = run K st"
  by simp

lemma run_Seq_Chr:
  "run (Seq (Chr c) K) (s, cs) = (case s of [] \<Rightarrow> [] | x # xs \<Rightarrow> if x = c then run K (xs, cs) else [])"
  by (cases s) auto

lemma run_Str_Seq: "run (Seq (Str w) K) (s, cs) = (if prefix w s then run K (drop (length w) s, cs) else [])"
proof (induction w arbitrary: s)
  case Nil
  then show ?case by simp
next
  case (Cons c w)
  have "run (Seq (Str (c # w)) K) (s, cs) = run (Seq (Chr c) (Seq (Str w) K)) (s, cs)"
    by (simp only: Str.simps run_Seq_assoc)
  then show ?case using Cons.IH by (cases s) (auto simp: run_Seq_Chr simp del: run.simps)
qed



section \<open>Evaluation\<close>

text \<open>The equations with which the simplifier runs the program on a given input.\<close>

lemma Rep_3_8:
  "Rep 3 8 r = Seq r (Seq r (Seq r (Opt (Seq r (Opt (Seq r (Opt (Seq r (Opt (Seq r (Opt (Seq r Eps))))))))))))"
  by (simp add: eval_nat_numeral)

lemma fracDigits_unfold:
  "fracDigits k f =
     (if k = 0 \<or> f = 0 then []
      else digitChar (nat \<lfloor>f * 10\<rfloor>) # fracDigits (k - 1) (f * 10 - of_int \<lfloor>f * 10\<rfloor>))"
  by (cases k) auto

lemmas class_defs = notParen_def isHexDigit_def commaOrSpace_def commaQuestionOrSpace_def
  commaOrSlash_def digitOrDot_def isDigit_def isSpace_def code_def

lemmas pattern_defs = COLOR_REGEX_def rgbPattern_def hslPattern_def oklchPattern_def
  Plus_def Opt_def Rep_3_8

lemmas string_defs = toLowerCase_def lowerChar_def char_of_eq_iff trim_def startsWith_def
  endsWith_def substring_def padStart0_def

lemmas number_defs = plus_number_def minus_number_def times_number_def divide_number_def
  less_number_def less_eq_number_def Math_abs_def Math_max_def Math_min_def Math_round_def
  js_rem_def digitChar_def showRadix.simps digitVal_def isRadixDigit_def digitsValue_def
  parseInt_def parseFloat_def Number_toString_def toString16_def toFixed_def fracDigits_unfold

lemmas parse_defs = parseColor_def hexToRgb_def rgbStringToRgb_def hslStringToRgb_def
  String_match_def grp_def replaceAtStart_def

lemmas convert_defs = convertCssColors_def convertCallback_def convertMatch_def clampRgb_def
  formatColor_def toHex_def rgbToHex_def

lemmas eval_defs = class_defs pattern_defs string_defs number_defs parse_defs convert_defs Let_def

section \<open>Unsupported output formats\<close>

lemma convertCallback_unsupported:
  assumes "format opts \<notin> {''oklch'', ''hex'', ''rgb'', ''hsl''}"
  shows "convertCallback (Some opts) m = Inr m"
  using assms
  by (simp add: convertCallback_def convertMatch_def formatColor_def split: option.splits)

text \<open>
  Claim C9.  When the configured output format is none of \<^verbatim>\<open>oklch\<close>, \<^verbatim>\<open>hex\<close>, \<^verbatim>\<open>rgb\<close>,
  \<^verbatim>\<open>hsl\<close>, the callback returns every matched token unchanged, and
  \<open>convertCssColors\<close> returns the input text unchanged, without an exception.
\<close>

theorem c9_unsupported_format_passthrough:
  assumes "format opts \<notin> {''oklch'', ''hex'', ''rgb'', ''hsl''}"
  shows "convertCallback (Some opts) m = Inr m \<and> convertCssColors css (Some opts) = Inr css"
proof -
  have cb: "\<And>t. convertCallback (Some opts) t = Inr t"
    using assms by (rule convertCallback_unsupported)
  then have "replaceAll COLOR_REGEX (convertCallback (Some opts)) css = Inr css"
    by (rule replaceAll_id)
  then show ?thesis
    using cb by (simp add: convertCssColors_def)
qed

theorem c9_witness:
  "format \<lparr>format = ''cmyk'', useCssSyntax = True\<rparr> \<notin> {''oklch'', ''hex'', ''rgb'', ''hsl''}
   \<and> convertCallback (Some \<lparr>format = ''cmyk'', useCssSyntax = True\<rparr>) ''#fff'' = Inr ''#fff''
   \<and> convertCssColors ''a { color: #fff; }'' (Some \<lparr>format = ''cmyk'', useCssSyntax = True\<rparr>)
       = Inr ''a { color: #fff; }''"
  using c9_unsupported_format_passthrough
          [of "\<lparr>format = ''cmyk'', useCssSyntax = True\<rparr>" "''#fff''" "''a { color: #fff; }''"]
  by simp

section \<open>Clamping\<close>

text \<open>
  Claim C2 (as stated) fails: the channel pattern \<^verbatim>\<open>(\d+)\<close> reads no sign, so the rgb
  parser rejects \<^verbatim>\<open>rgb(300, -20, 128)\<close> and the token stays as it is.
\<close>

theorem c2_negative_channel_counterexample:
  "convertCssColors ''rgb(300, -20, 128)'' (Some \<lparr>format = ''rgb'', useCssSyntax = True\<rparr>)
     = Inr ''rgb(300, -20, 128)''
   \<and> convertCssColors ''rgb(300, -20, 128)'' (Some \<lparr>format = ''rgb'', useCssSyntax = True\<rparr>)
     \<noteq> Inr ''rgb(255, 0, 128)''"
  by (simp add: eval_defs)

section \<open>Case of the keywords\<close>


section \<open>The sample that reaches a formatter\<close>

lemma convertMatch_sample:
  "convertMatch (Some opts) m =
     (case sampleAtFormatter m of None \<Rightarrow> Inr m | Some rgb \<Rightarrow> Inr (formatColor opts m rgb))"
  by (simp add: convertMatch_def sampleAtFormatter_def split: option.splits)





section \<open>The scan and the fail-safe policy\<close>

lemma segments_concat: "concat (map segText (segments r s)) = s"
proof (induction r s rule: segments.induct)
  case (1 r)
  then show ?case by (simp split: list.splits)
next
  case (2 r x xs)
  show ?case
  proof (cases "run r (x # xs, [])")
    case Nil
    then show ?thesis using 2 by simp
  next
    case (Cons a rest)
    obtain s' cs' where a: "a = (s', cs')" by (cases a)
    show ?thesis
    proof (cases "length s' < length (x # xs)")
      case True
      have "concat (map segText (segments r s')) = s'"
        using "2.IH"(2)[OF Cons[unfolded a] refl True] by simp
      with True Cons a run_head_split[OF Cons[unfolded a]]
      show ?thesis by simp
    next
      case False
      have "concat (map segText (segments r xs)) = xs"
        using "2.IH"(3)[OF Cons[unfolded a] refl False] by simp
      with False Cons a show ?thesis by simp
    qed
  qed
qed

lemma replaceAll_segments:
  "replaceAll r (\<lambda>m. Inr (g m)) s =
     Inr (concat (map (\<lambda>seg. case seg of Gap c \<Rightarrow> [c] | Tok m \<Rightarrow> g m) (segments r s)))"
proof (induction r "\<lambda>m. Inr (g m) :: error + string" s rule: replaceAll.induct)
  case (1 r)
  then show ?case by (simp split: list.splits)
next
  case (2 r x xs)
  show ?case
  proof (cases "run r (x # xs, [])")
    case Nil
    then show ?thesis using 2 by simp
  next
    case (Cons a rest)
    obtain s' cs' where a: "a = (s', cs')" by (cases a)
    show ?thesis
    proof (cases "length s' < length (x # xs)")
      case True
      then show ?thesis
        using "2.hyps"(2)[OF Cons[unfolded a] refl True] Cons a by simp
    next
      case False
      then show ?thesis
        using "2.hyps"(3)[OF Cons[unfolded a] refl False] Cons a by simp
    qed
  qed
qed

lemma convertCallback_tokenOutput: "convertCallback options = (\<lambda>m. Inr (tokenOutput options m))"
  by (rule ext) (simp add: convertCallback_def tokenOutput_def split: sum.splits)

lemma segOutput_case: "segOutput options = (\<lambda>seg. case seg of Gap c \<Rightarrow> [c] | Tok m \<Rightarrow> tokenOutput options m)"
  by (rule ext) (simp split: segment.splits)

lemma COLOR_REGEX_nonempty: "run COLOR_REGEX ([], cs) = []"
  by (simp add: COLOR_REGEX_def)

lemma convertCssColors_segments:
  "convertCssColors css options = Inr (concat (map (segOutput options) (segments COLOR_REGEX css)))"
proof (cases "css = []")
  case True
  then show ?thesis by (simp add: convertCssColors_def COLOR_REGEX_nonempty)
next
  case False
  then show ?thesis
    by (simp add: convertCssColors_def convertCallback_tokenOutput replaceAll_segments segOutput_case)
qed

text \<open>
  Claim C1.  For every input string and every options value (\<open>None\<close> is a caller that
  passes no options object) \<open>convertCssColors\<close> returns a string and no exception leaves
  it.  The input is the concatenation of its tokens and the characters between them; the
  output keeps those characters and puts the callback's text for each token; and a token
  whose parse fails, or whose conversion throws, is put back verbatim.
\<close>

theorem c1_fail_safe:
  "convertCssColors css options \<noteq> Inl e
   \<and> concat (map segText (segments COLOR_REGEX css)) = css
   \<and> convertCssColors css options = Inr (concat (map (segOutput options) (segments COLOR_REGEX css)))
   \<and> (parseColor (trim (toLowerCase m)) = None \<longrightarrow> tokenOutput options m = m)
   \<and> (convertMatch options m = Inl e \<longrightarrow> tokenOutput options m = m)"
  by (simp add: convertCssColors_segments segments_concat tokenOutput_def convertMatch_def)

theorem c1_witness:
  "parseColor (trim (toLowerCase ''#12345'')) = None
   \<and> tokenOutput (Some \<lparr>format = ''rgb'', useCssSyntax = True\<rparr>) ''#12345'' = ''#12345''
   \<and> convertCssColors ''a: #12345, #fff;'' (Some \<lparr>format = ''rgb'', useCssSyntax = True\<rparr>)
       = Inr ''a: #12345, rgb(255, 255, 255);''
   \<and> convertMatch None ''#fff'' = Inl TypeError
   \<and> tokenOutput None ''#fff'' = ''#fff''
   \<and> convertCssColors ''a: #12345, #fff;'' None = Inr ''a: #12345, #fff;''"
proof -
  have p: "parseColor (trim (toLowerCase ''#12345'')) = None"
    by (simp add: class_defs pattern_defs string_defs parse_defs Let_def)
  have q: "convertMatch None ''#fff'' = Inl TypeError"
    by (simp add: class_defs pattern_defs string_defs number_defs parse_defs convertMatch_def Let_def)
  have r: "convertCssColors ''a: #12345, #fff;'' (Some \<lparr>format = ''rgb'', useCssSyntax = True\<rparr>)
       = Inr ''a: #12345, rgb(255, 255, 255);''"
    by (simp add: eval_defs)
  have s: "convertCssColors ''a: #12345, #fff;'' None = Inr ''a: #12345, #fff;''"
    by (simp add: eval_defs)
  show ?thesis
    using c1_fail_safe[of "''a: #12345, #fff;''" "Some \<lparr>format = ''rgb'', useCssSyntax = True\<rparr>" TypeError "''#12345''"]
      c1_fail_safe[of "''a: #12345, #fff;''" None TypeError "''#fff''"] p q r s
    by simp
qed

section \<open>The formatters\<close>









section \<open>Greedy repetition of a character class\<close>

text \<open>
  When the rest of a pattern cannot begin with a character of the class, the greedy
  repetition of the class takes the longest run of such characters and never has to give
  one back.
\<close>

lemma run_Seq_Class:
  "run (Seq (Class p) K) (s, cs) = (case s of [] \<Rightarrow> [] | x # xs \<Rightarrow> if p x then run K (xs, cs) else [])"
  by (cases s) auto

lemma run_Seq_Alt: "run (Seq (Alt a b) K) st = run (Seq a K) st @ run (Seq b K) st"
  by simp

lemma run_Seq_Opt: "run (Seq (Opt a) K) st = run (Seq a K) st @ run K st"
  by (simp add: Opt_def)

lemma run_Seq_Eol: "run (Seq Eol K) (s, cs) = (if s = [] then run K ([], cs) else [])"
  by simp

lemma run_Seq_Star_Class:
  assumes "\<And>c t cs'. p c \<Longrightarrow> run K (c # t, cs') = []"
  shows "run (Seq (Star (Class p)) K) (s, cs) = run K (dropWhile p s, cs)"
proof (induction s)
  case Nil
  then show ?case by simp
next
  case (Cons x xs)
  show ?case
  proof (cases "p x")
    case True
    have "run (Seq (Star (Class p)) K) (x # xs, cs)
            = run (Seq (Star (Class p)) K) (xs, cs) @ run K (x # xs, cs)"
      using True by simp
    then show ?thesis using True Cons.IH assms by simp
  next
    case False
    then show ?thesis by simp
  qed
qed

lemma run_Seq_Plus_Class:
  assumes "\<And>c t cs'. p c \<Longrightarrow> run K (c # t, cs') = []"
  shows "run (Seq (Plus (Class p)) K) (s, cs) =
           (if takeWhile p s = [] then [] else run K (dropWhile p s, cs))"
proof -
  have "run (Seq (Plus (Class p)) K) (s, cs) = run (Seq (Class p) (Seq (Star (Class p)) K)) (s, cs)"
    unfolding Plus_def by (rule run_Seq_assoc)
  also have "\<dots> = (case s of [] \<Rightarrow> [] | x # xs \<Rightarrow>
                      if p x then run (Seq (Star (Class p)) K) (xs, cs) else [])"
    by (rule run_Seq_Class)
  also have "\<dots> = (if takeWhile p s = [] then [] else run K (dropWhile p s, cs))"
    by (cases s) (simp_all add: run_Seq_Star_Class[OF assms] del: run.simps)
  finally show ?thesis .
qed

lemma run_Star_Class_rests:
  "run (Star (Class p)) (s, cs) = map (\<lambda>j. (drop j s, cs)) (rev [0 ..< Suc (length (takeWhile p s))])"
proof (induction s)
  case Nil
  then show ?case by simp
next
  case (Cons x xs)
  show ?case
  proof (cases "p x")
    case True
    have "rev [0 ..< Suc (Suc n)] = map Suc (rev [0 ..< Suc n]) @ [0]" for n
      by (simp add: map_Suc_upt rev_map[symmetric] upt_conv_Cons del: upt_Suc)
    then show ?thesis using True Cons.IH by (simp add: comp_def del: upt_Suc)
  next
    case False
    then show ?thesis by simp
  qed
qed

lemma run_Seq_Group_Plus_Class:
  assumes "\<And>c t cs'. p c \<Longrightarrow> run K (c # t, cs') = []"
  shows "run (Seq (Group k (Plus (Class p))) K) (s, cs) =
           (if takeWhile p s = [] then [] else run K (dropWhile p s, (k, takeWhile p s) # cs))"
proof (cases s)
  case Nil
  then show ?thesis by (simp add: Plus_def)
next
  case (Cons x xs)
  show ?thesis
  proof (cases "p x")
    case False
    then show ?thesis using Cons by (simp add: Plus_def)
  next
    case True
    define n where "n = length (takeWhile p xs)"
    have g: "run (Group k (Plus (Class p))) (s, cs)
             = map (\<lambda>j. (drop j xs, (k, take (Suc j) s) # cs)) (rev [0 ..< Suc n])"
    proof -
      have pl: "run (Plus (Class p)) (s, cs) = run (Star (Class p)) (xs, cs)"
        using True Cons by (simp add: Plus_def)
      have "run (Group k (Plus (Class p))) (s, cs)
            = map (\<lambda>(s', cs'). (s', (k, take (length s - length s') s) # cs'))
                (run (Plus (Class p)) (s, cs))"
        by simp
      also have "\<dots> = map (\<lambda>(s', cs'). (s', (k, take (length s - length s') s) # cs'))
                (map (\<lambda>j. (drop j xs, cs)) (rev [0 ..< Suc n]))"
        unfolding pl run_Star_Class_rests n_def ..
      also have "\<dots> = map (\<lambda>j. (drop j xs, (k, take (Suc j) s) # cs)) (rev [0 ..< Suc n])"
      proof -
        have "j \<le> length xs \<Longrightarrow> length s - length (drop j xs) = Suc j" for j
          using Cons by simp
        moreover have "n \<le> length xs"
          unfolding n_def by (rule length_takeWhile_le)
        ultimately show ?thesis
          by (auto simp: comp_def simp del: upt_Suc)
      qed
      finally show ?thesis .
    qed
    have fail: "run K (drop j xs, c') = []" if "j < n" for j c'
    proof -
      from that have "j < length xs" 
        unfolding n_def using length_takeWhile_le[of p xs] by simp
      then have d: "drop j xs = xs ! j # drop (Suc j) xs"
        by (simp add: Cons_nth_drop_Suc)
      have "p (xs ! j)"
        using that unfolding n_def by (metis nth_mem set_takeWhileD takeWhile_nth)
      then show ?thesis
        unfolding d by (rule assms)
    qed
    have "run (Seq (Group k (Plus (Class p))) K) (s, cs)
          = concat (map (\<lambda>j. run K (drop j xs, (k, take (Suc j) s) # cs)) (rev [0 ..< Suc n]))"
      by (simp add: g comp_def del: run.simps(8) upt_Suc)
    also have "\<dots> = run K (drop n xs, (k, take (Suc n) s) # cs)"
    proof -
      have "concat (map (\<lambda>j. run K (drop j xs, (k, take (Suc j) s) # cs)) (rev [0 ..< n])) = []"
        using fail by simp
      then show ?thesis by simp
    qed
    finally have r: "run (Seq (Group k (Plus (Class p))) K) (s, cs)
                     = run K (drop n xs, (k, take (Suc n) s) # cs)" .
    have "drop n xs = dropWhile p xs"
      unfolding n_def by (rule dropWhile_eq_drop[symmetric])
    moreover have "take n xs = takeWhile p xs"
      unfolding n_def by (rule takeWhile_eq_take[symmetric])
    ultimately show ?thesis
      using True Cons r by simp
  qed
qed

lemma char_eq_code: "(c = d) = (code c = code d)"
  by (auto simp: code_def)

lemma run_Seq_Chr_fail: "x \<noteq> c \<Longrightarrow> run (Seq (Chr c) K) (x # t, cs) = []"
  by simp

lemma run_Seq_Class_fail: "\<not> p x \<Longrightarrow> run (Seq (Class p) K) (x # t, cs) = []"
  by simp

lemma run_Seq_Plus_Class_fail: "\<not> p x \<Longrightarrow> run (Seq (Plus (Class p)) K) (x # t, cs) = []"
  by (simp add: Plus_def)

lemma run_Seq_Group_Plus_Class_fail:
  "\<not> p x \<Longrightarrow> run (Seq (Group k (Plus (Class p))) K) (x # t, cs) = []"
  by (simp add: Plus_def)

lemma run_Seq_Star_Class_skip:
  "\<not> p x \<Longrightarrow> run (Seq (Star (Class p)) K) (x # t, cs) = run K (x # t, cs)"
  by simp

lemmas fail_first = run_Seq_Chr_fail run_Seq_Class_fail run_Seq_Plus_Class_fail
  run_Seq_Group_Plus_Class_fail run_Seq_Star_Class_skip

lemma class_disjoint:
  "isDigit c \<Longrightarrow> \<not> commaOrSpace c"
  "isDigit c \<Longrightarrow> \<not> isSpace c"
  "isDigit c \<Longrightarrow> \<not> commaOrSlash c"
  "isDigit c \<Longrightarrow> c \<noteq> CHR '')''"
  "commaOrSpace c \<Longrightarrow> \<not> isDigit c"
  "isSpace c \<Longrightarrow> \<not> commaOrSlash c"
  "isSpace c \<Longrightarrow> \<not> digitOrDot c"
  "digitOrDot c \<Longrightarrow> c \<noteq> CHR '')''"
  by (auto simp: class_defs char_eq_code)

lemma run_close: "run (Seq (Chr (CHR '')'')) Eps) (s, cs) = scanClose s cs"
  by (cases s) (simp_all add: scanClose_def)

lemma run_alpha:
  "run (Seq (Seqs [Star (Class isSpace), Class commaOrSlash, Star (Class isSpace),
                   Group 4 (Plus (Class digitOrDot))])
            (Seq (Chr (CHR '')'')) Eps)) (s, cs) = scanAlpha s cs"
proof -
  let ?K = "Seq (Chr (CHR '')'')) Eps"
  let ?A3 = "Seq (Group 4 (Plus (Class digitOrDot))) Eps"
  let ?A2 = "Seq (Star (Class isSpace)) ?A3"
  let ?A1 = "Seq (Class commaOrSlash) ?A2"
  have a3: "run (Seq ?A3 ?K) (u, c') =
            (if takeWhile digitOrDot u = [] then []
             else scanClose (dropWhile digitOrDot u) ((4, takeWhile digitOrDot u) # c'))" for u c'
    unfolding run_Seq_assoc
    by (subst run_Seq_Group_Plus_Class)
       (simp_all add: run_Seq_Eps run_close scanClose_def class_disjoint del: run.simps)
  have a2: "run (Seq ?A2 ?K) (t, c') = run (Seq ?A3 ?K) (dropWhile isSpace t, c')" for t c'
    unfolding run_Seq_assoc[of "Star (Class isSpace)"]
    by (rule run_Seq_Star_Class)
       (simp add: run_Seq_assoc class_disjoint fail_first del: run.simps)
  have a1: "run (Seq ?A1 ?K) (t, c') =
              (case t of [] \<Rightarrow> [] | x # t' \<Rightarrow> if commaOrSlash x then run (Seq ?A2 ?K) (t', c') else [])"
    for t c'
    unfolding run_Seq_assoc[of "Class commaOrSlash"] by (rule run_Seq_Class)
  have a0: "run (Seq (Seq (Star (Class isSpace)) ?A1) ?K) (s, cs)
              = run (Seq ?A1 ?K) (dropWhile isSpace s, cs)"
    unfolding run_Seq_assoc[of "Star (Class isSpace)"]
    by (rule run_Seq_Star_Class)
       (simp add: run_Seq_assoc class_disjoint fail_first del: run.simps)
  have "run (Seq (Seqs [Star (Class isSpace), Class commaOrSlash, Star (Class isSpace),
                   Group 4 (Plus (Class digitOrDot))]) ?K) (s, cs)
        = run (Seq (Seq (Star (Class isSpace)) ?A1) ?K) (s, cs)"
    by (simp only: Seqs.simps)
  also have "\<dots> = scanAlpha s cs"
    unfolding a0 a1 a2 a3 scanAlpha_def Let_def ..
  finally show ?thesis .
qed

lemma scan_reject_digit:
  "isDigit c \<Longrightarrow> scanAlpha (c # t) cs = []" "isDigit c \<Longrightarrow> scanClose (c # t) cs = []"
  by (simp_all add: scanAlpha_def scanClose_def class_disjoint)

lemma run_channels:
  "run (Seqs [Group 1 (Plus (Class isDigit)), Plus (Class commaOrSpace),
              Group 2 (Plus (Class isDigit)), Plus (Class commaOrSpace),
              Group 3 (Plus (Class isDigit)),
              Opt (Seqs [Star (Class isSpace), Class commaOrSlash, Star (Class isSpace),
                         Group 4 (Plus (Class digitOrDot))]),
              Chr (CHR '')'')]) (s, cs) = scanChannels s cs"
proof -
  let ?K = "Seq (Chr (CHR '')'')) Eps"
  let ?A = "Seqs [Star (Class isSpace), Class commaOrSlash, Star (Class isSpace),
                  Group 4 (Plus (Class digitOrDot))]"
  let ?T6 = "Seq (Opt ?A) ?K"
  let ?T5 = "Seq (Group 3 (Plus (Class isDigit))) ?T6"
  let ?T4 = "Seq (Plus (Class commaOrSpace)) ?T5"
  let ?T3 = "Seq (Group 2 (Plus (Class isDigit))) ?T4"
  let ?T2 = "Seq (Plus (Class commaOrSpace)) ?T3"
  let ?T1 = "Seq (Group 1 (Plus (Class isDigit))) ?T2"
  have t6: "run ?T6 (u, c') = scanAlpha u c' @ scanClose u c'" for u c'
    unfolding run_Seq_Opt run_alpha run_close ..
  have t5: "run ?T5 (u, c') =
      (if takeWhile isDigit u = [] then []
       else run ?T6 (dropWhile isDigit u, (3, takeWhile isDigit u) # c'))" for u c'
    by (rule run_Seq_Group_Plus_Class) (simp add: t6 scan_reject_digit del: run.simps Seqs.simps)
  have t4: "run ?T4 (u, c') =
      (if takeWhile commaOrSpace u = [] then [] else run ?T5 (dropWhile commaOrSpace u, c'))" for u c'
    by (rule run_Seq_Plus_Class) (simp add: fail_first class_disjoint del: run.simps Seqs.simps)
  have t3: "run ?T3 (u, c') =
      (if takeWhile isDigit u = [] then []
       else run ?T4 (dropWhile isDigit u, (2, takeWhile isDigit u) # c'))" for u c'
    by (rule run_Seq_Group_Plus_Class) (simp add: fail_first class_disjoint del: run.simps Seqs.simps)
  have t2: "run ?T2 (u, c') =
      (if takeWhile commaOrSpace u = [] then [] else run ?T3 (dropWhile commaOrSpace u, c'))" for u c'
    by (rule run_Seq_Plus_Class) (simp add: fail_first class_disjoint del: run.simps Seqs.simps)
  have t1: "run ?T1 (u, c') =
      (if takeWhile isDigit u = [] then []
       else run ?T2 (dropWhile isDigit u, (1, takeWhile isDigit u) # c'))" for u c'
    by (rule run_Seq_Group_Plus_Class) (simp add: fail_first class_disjoint del: run.simps Seqs.simps)
  have "run (Seqs [Group 1 (Plus (Class isDigit)), Plus (Class commaOrSpace),
              Group 2 (Plus (Class isDigit)), Plus (Class commaOrSpace),
              Group 3 (Plus (Class isDigit)), Opt ?A, Chr (CHR '')'')]) (s, cs) = run ?T1 (s, cs)"
    by (simp only: Seqs.simps)
  also have "\<dots> = scanChannels s cs"
    unfolding t1 t2 t3 t4 t5 t6 scanChannels_def Let_def by simp
  finally show ?thesis .
qed

lemma run_rgbPattern: "run rgbPattern (s, cs) = scanRgb s cs"
proof -
  define C where "C = Seqs [Group 1 (Plus (Class isDigit)), Plus (Class commaOrSpace),
              Group 2 (Plus (Class isDigit)), Plus (Class commaOrSpace),
              Group 3 (Plus (Class isDigit)),
              Opt (Seqs [Star (Class isSpace), Class commaOrSlash, Star (Class isSpace),
                         Group 4 (Plus (Class digitOrDot))]),
              Chr (CHR '')'')]"
  have rc: "run C (u, c') = scanChannels u c'" for u c'
    unfolding C_def by (rule run_channels)
  have "run rgbPattern (s, cs)
        = run (Seq (Str ''rgb'') (Seq (Opt (Chr (CHR ''a''))) (Seq (Chr (CHR ''('')) C))) (s, cs)"
    by (simp only: rgbPattern_def Seqs.simps C_def)
  also have "\<dots> = (if prefix ''rgb'' s
                     then run (Seq (Chr (CHR ''a'')) (Seq (Chr (CHR ''('')) C)) (drop (length ''rgb'') s, cs)
                          @ run (Seq (Chr (CHR ''('')) C) (drop (length ''rgb'') s, cs)
                     else [])"
    by (simp only: run_Str_Seq run_Seq_Opt)
  also have "\<dots> = scanRgb s cs"
    by (auto simp add: run_Seq_Chr rc scanRgb_def prefix_def
          simp del: run.simps split: list.splits)
  finally show ?thesis .
qed

section \<open>Decimal and hexadecimal digits\<close>

lemma showRadix_digits: "1 < radix \<Longrightarrow> radix \<le> 10 \<Longrightarrow> showRadix radix n \<noteq> [] \<and> (\<forall>c\<in>set (showRadix radix n). isDigit c)"
proof (induction radix n rule: showRadix.induct)
  case (1 radix n)
  have d: "isDigit (digitChar k)" if "k < 10" for k
  proof -
    from that have "k \<in> {0, 1, 2, 3, 4, 5, 6, 7, 8, 9}" by auto
    then show ?thesis
      by (auto simp: digitChar_def isDigit_def code_def)
  qed
  show ?case
  proof (cases "n < radix")
    case True
    then show ?thesis using "1.prems" d[of n] by (simp add: showRadix.simps[of radix n])
  next
    case False
    have "n mod radix < 10" using "1.prems" by (meson less_le_trans mod_less_divisor not_less zero_less_one less_trans)
    then show ?thesis
      using False "1.prems" "1.IH" d[of "n mod radix"] by (simp add: showRadix.simps[of radix n])
  qed
qed

lemma digitVal_digitChar: "k < 10 \<Longrightarrow> digitVal (digitChar k) = Some k"
proof -
  assume "k < 10"
  then have "k \<in> {0, 1, 2, 3, 4, 5, 6, 7, 8, 9}" by auto
  then show ?thesis
    by (auto simp: digitChar_def digitVal_def code_def)
qed

lemma digitsValue_snoc: "digitsValue radix (ds @ [c]) = digitsValue radix ds * radix + the (digitVal c)"
  by (simp add: digitsValue_def)

lemma digitsValue_showRadix: "digitsValue 10 (showRadix 10 n) = n"
proof (induction "10 :: nat" n rule: showRadix.induct)
  case (1 n)
  show ?case
  proof (cases "n < 10")
    case True
    then show ?thesis
      by (simp add: showRadix.simps[of 10 n] digitsValue_def digitVal_digitChar)
  next
    case False
    then have "digitsValue 10 (showRadix 10 (n div 10)) = n div 10"
      using 1 by simp
    then show ?thesis
      using False by (simp add: showRadix.simps[of 10 n] digitsValue_snoc digitVal_digitChar)
  qed
qed

lemma isDigit_radix10: "isDigit c \<Longrightarrow> isRadixDigit 10 c"
  by (auto simp: isDigit_def isRadixDigit_def digitVal_def)

lemma parseInt_digits:
  assumes "ds \<noteq> []" "\<forall>c\<in>set ds. isDigit c"
  shows "parseInt ds 10 = Fin (real (digitsValue 10 ds))"
proof -
  obtain c t where ds: "ds = c # t" using assms(1) by (cases ds) auto
  have c: "isDigit c" using assms(2) ds by simp
  then have ns: "\<not> isSpace c" "c \<noteq> CHR ''-''" "c \<noteq> CHR ''+''"
    by (auto simp: class_defs char_eq_code)
  have tw: "takeWhile (isRadixDigit 10) ds = ds"
    using assms(2) by (simp add: isDigit_radix10)
  show ?thesis
    using ns tw assms(1) by (simp add: parseInt_def ds Let_def)
qed

lemma parseInt_showRadix: "parseInt (showRadix 10 n) 10 = Fin (real n)"
  using showRadix_digits[of 10 n] by (simp add: parseInt_digits digitsValue_showRadix)

lemma Number_toString_nat: "Number_toString (Math_round (Fin (real n))) = showRadix 10 n"
proof -
  have "\<lfloor>real n + 1 / 2\<rfloor> = int n" by linarith
  then show ?thesis
    by (simp add: Math_round_def Number_toString_def)
qed

lemma clamp_byte: "n \<le> 255 \<Longrightarrow> Math_max (Fin 0) (Math_min (Fin 255) (Fin (real n))) = Fin (real n)"
  by (simp add: Math_max_def Math_min_def)

lemma toHex_byte:
  assumes "n < 256"
  shows "toHex (Fin (real n)) = [digitChar (n div 16), digitChar (n mod 16)]"
proof -
  have r: "Math_round (Fin (real n)) = Fin (real n)"
  proof -
    have "\<lfloor>real n + 1 / 2\<rfloor> = int n" by linarith
    then show ?thesis by (simp add: Math_round_def)
  qed
  have s: "showRadix 16 n = (if n < 16 then [digitChar n] else [digitChar (n div 16), digitChar (n mod 16)])"
    using assms
    by (simp add: showRadix.simps[of 16 n] showRadix.simps[of 16 "n div 16"] less_mult_imp_div_less)
  have z: "digitChar 0 = CHR ''0''" by (simp add: digitChar_def)
  show ?thesis
    by (simp add: toHex_def r toString16_def s padStart0_def z)
qed

lemma code_in_range: "a \<le> n \<Longrightarrow> n \<le> b \<Longrightarrow> (n::nat) \<in> set [a ..< Suc b]"
  by auto

lemma hex_chars:
  assumes "isHexDigit h"
  shows "h \<in> set ''0123456789ABCDEFabcdef''"
proof -
  from assms have "code h \<in> set [48 ..< Suc 57] \<or> code h \<in> set [65 ..< Suc 70] \<or> code h \<in> set [97 ..< Suc 102]"
    unfolding isHexDigit_def using code_in_range by blast
  then have "code h \<in> {48, 49, 50, 51, 52, 53, 54, 55, 56, 57, 65, 66, 67, 68, 69, 70,
                               97, 98, 99, 100, 101, 102}"
    by (simp add: upt_rec_numeral del: upt_Suc set_upt)
  then show ?thesis
    by (simp add: char_eq_code code_def)
qed

lemma hex_lower:
  assumes "isHexDigit h"
  shows "lowerChar h \<in> set ''0123456789abcdef''"
proof -
  from hex_chars[OF assms]
  have "h = CHR ''0'' \<or> h = CHR ''1'' \<or> h = CHR ''2'' \<or> h = CHR ''3'' \<or> h = CHR ''4''
      \<or> h = CHR ''5'' \<or> h = CHR ''6'' \<or> h = CHR ''7'' \<or> h = CHR ''8'' \<or> h = CHR ''9''
      \<or> h = CHR ''A'' \<or> h = CHR ''B'' \<or> h = CHR ''C'' \<or> h = CHR ''D'' \<or> h = CHR ''E''
      \<or> h = CHR ''F'' \<or> h = CHR ''a'' \<or> h = CHR ''b'' \<or> h = CHR ''c'' \<or> h = CHR ''d''
      \<or> h = CHR ''e'' \<or> h = CHR ''f''"
    by simp
  then show ?thesis
    by (elim disjE) (simp_all add: lowerChar_def code_def char_of_eq_iff)
qed

lemma hex_digit_facts:
  assumes "l \<in> set ''0123456789abcdef''"
  shows "\<not> isSpace l" "l \<noteq> CHR ''-''" "l \<noteq> CHR ''+''" "l \<noteq> CHR ''x''" "l \<noteq> CHR ''X''"
    "isRadixDigit 16 l" "the (digitVal l) < 16" "digitChar (the (digitVal l)) = l"
proof -
  from assms
  have c: "l = CHR ''0'' \<or> l = CHR ''1'' \<or> l = CHR ''2'' \<or> l = CHR ''3'' \<or> l = CHR ''4''
      \<or> l = CHR ''5'' \<or> l = CHR ''6'' \<or> l = CHR ''7'' \<or> l = CHR ''8'' \<or> l = CHR ''9''
      \<or> l = CHR ''a'' \<or> l = CHR ''b'' \<or> l = CHR ''c'' \<or> l = CHR ''d''
      \<or> l = CHR ''e'' \<or> l = CHR ''f''"
    by simp
  show "\<not> isSpace l" using c by (elim disjE) (simp_all add: isSpace_def code_def)
  show "l \<noteq> CHR ''-''" using c by (elim disjE) simp_all
  show "l \<noteq> CHR ''+''" using c by (elim disjE) simp_all
  show "l \<noteq> CHR ''x''" using c by (elim disjE) simp_all
  show "l \<noteq> CHR ''X''" using c by (elim disjE) simp_all
  show "isRadixDigit 16 l" using c
    by (elim disjE) (simp_all add: isRadixDigit_def digitVal_def code_def)
  show "the (digitVal l) < 16" using c
    by (elim disjE) (simp_all add: digitVal_def code_def)
  show "digitChar (the (digitVal l)) = l" using c
    by (elim disjE) (simp_all add: digitVal_def digitChar_def code_def)
qed

lemma parseInt_hex_pair:
  assumes "l1 \<in> set ''0123456789abcdef''" "l2 \<in> set ''0123456789abcdef''"
  shows "parseInt [l1, l2] 16 = Fin (real (the (digitVal l1) * 16 + the (digitVal l2)))"
  using hex_digit_facts[OF assms(1)] hex_digit_facts[OF assms(2)]
  by (simp add: parseInt_def digitsValue_def Let_def)

lemma toHex_hex_pair:
  assumes "l1 \<in> set ''0123456789abcdef''" "l2 \<in> set ''0123456789abcdef''"
  shows "toHex (Fin (real (the (digitVal l1) * 16 + the (digitVal l2)))) = [l1, l2]"
proof -
  define v1 where "v1 = the (digitVal l1)"
  define v2 where "v2 = the (digitVal l2)"
  have v: "v1 < 16" "v2 < 16"
    unfolding v1_def v2_def
    using hex_digit_facts(7)[OF assms(1)] hex_digit_facts(7)[OF assms(2)] .
  have d: "digitChar v1 = l1" "digitChar v2 = l2"
    unfolding v1_def v2_def
    using hex_digit_facts(8)[OF assms(1)] hex_digit_facts(8)[OF assms(2)] .
  have "v1 * 16 + v2 < 256" using v by simp
  then have "toHex (Fin (real (v1 * 16 + v2)))
               = [digitChar ((v1 * 16 + v2) div 16), digitChar ((v1 * 16 + v2) mod 16)]"
    by (rule toHex_byte)
  moreover have "(v1 * 16 + v2) div 16 = v1" "(v1 * 16 + v2) mod 16 = v2"
    using v by simp_all
  ultimately have "toHex (Fin (real (v1 * 16 + v2))) = [l1, l2]"
    using d by simp
  then show ?thesis
    unfolding v1_def v2_def .
qed

section \<open>The text of an rgb token\<close>

lemma replaceAll_whole:
  assumes "run r (x # xs, []) = ([], cs) # others" "run r ([], []) = []"
  shows "replaceAll r f (x # xs) = (case f (x # xs) of Inl e \<Rightarrow> Inl e | Inr t \<Rightarrow> Inr t)"
  using assms by (simp split: sum.splits)

lemma lowerChar_id: "code c < 65 \<or> (90 < code c \<and> code c < 192) \<Longrightarrow> lowerChar c = c"
  by (auto simp: lowerChar_def)

lemma toLowerCase_id: "(\<forall>c\<in>set s. code c < 65 \<or> (90 < code c \<and> code c < 192)) \<Longrightarrow> toLowerCase s = s"
  by (simp add: toLowerCase_def lowerChar_id map_idI)

lemma trim_id:
  assumes "s \<noteq> []" "\<not> isSpace (hd s)" "\<not> isSpace (last s)"
  shows "trim s = s"
proof -
  have 1: "dropWhile isSpace s = s"
    using assms by (cases s) auto
  obtain ys y where s: "s = ys @ [y]"
    using assms(1) by (cases s rule: rev_cases) auto
  then have 2: "dropWhile isSpace (rev s) = rev s"
    using assms(3) by simp
  show ?thesis
    by (simp add: trim_def 1 2)
qed

lemma digit_facts:
  assumes "isDigit c"
  shows "notParen c" "code c < 65" "\<not> isSpace c" "\<not> commaOrSlash c" "c \<noteq> CHR '')''"
  using assms by (auto simp: class_defs char_eq_code)

lemma dec_facts:
  "showRadix 10 n \<noteq> []" "\<forall>c\<in>set (showRadix 10 n). isDigit c"
  "\<forall>c\<in>set (showRadix 10 n). notParen c" "\<forall>c\<in>set (showRadix 10 n). code c < 65"
  using showRadix_digits[of 10 n] by (auto simp: digit_facts)

lemma scanChannels_rgbText:
  "scanChannels (showRadix 10 r @ CHR '','' # CHR '' '' # showRadix 10 g @ CHR '','' # CHR '' '' #
                 showRadix 10 b @ [CHR '')'']) cs
     = [([], (3, showRadix 10 b) # (2, showRadix 10 g) # (1, showRadix 10 r) # cs)]"
proof -
  have nd: "\<not> isDigit (CHR '','')" "\<not> isDigit (CHR '')'')" "commaOrSpace (CHR '','')"
    "commaOrSpace (CHR '' '')" "\<not> isSpace (CHR '')'')" "\<not> commaOrSlash (CHR '')'')"
    by (simp_all add: class_defs)
  have tw: "takeWhile isDigit (showRadix 10 n @ c # t) = showRadix 10 n" if "\<not> isDigit c" for n c t
    using that dec_facts(2)[of n] by (simp add: takeWhile_append2)
  have dw: "dropWhile isDigit (showRadix 10 n @ c # t) = c # t" if "\<not> isDigit c" for n c t
    using that dec_facts(2)[of n] by (simp add: dropWhile_append2)
  have hd: "\<not> commaOrSpace (hd (showRadix 10 n @ t))" for n t
    using dec_facts(1,2)[of n] class_disjoint(1) by (cases "showRadix 10 n") auto
  have dws: "dropWhile commaOrSpace (showRadix 10 n @ t) = showRadix 10 n @ t" for n t
    using hd[of n t] dec_facts(1)[of n] by (cases "showRadix 10 n @ t") auto
  show ?thesis
    using dec_facts(1)
    by (simp add: scanChannels_def Let_def tw dw dws nd scanAlpha_def scanClose_def)
qed

lemma run_rgbPattern_rgbText:
  "run rgbPattern (rgbText r g b, []) = [([], [(3, showRadix 10 b), (2, showRadix 10 g), (1, showRadix 10 r)])]"
  by (simp add: run_rgbPattern scanRgb_def rgbText_def scanChannels_rgbText)

lemma exec_at_start:
  "run r (s, []) = (s', cs) # others \<Longrightarrow> exec r s = Some ([], take (length s - length s') s, s', cs)"
  by (cases s) simp_all

lemma rgbStringToRgb_rgbText:
  "rgbStringToRgb (rgbText r g b) = Some \<lparr>rgb_r = Fin (real r), rgb_g = Fin (real g), rgb_b = Fin (real b), rgb_a = None\<rparr>"
proof -
  have "exec rgbPattern (rgbText r g b)
          = Some ([], take (length (rgbText r g b) - length ([] :: string)) (rgbText r g b), [],
                  [(3, showRadix 10 b), (2, showRadix 10 g), (1, showRadix 10 r)])"
    by (rule exec_at_start) (rule run_rgbPattern_rgbText)
  then show ?thesis
    by (simp add: rgbStringToRgb_def String_match_def grp_def parseInt_showRadix)
qed

lemma run_Seq_Group_Opt_Chr:
  "run (Seq (Group k (Opt (Chr c))) K) (s, cs) =
     (case s of [] \<Rightarrow> [] | x # t \<Rightarrow> if x = c then run K (t, (k, [c]) # cs) else [])
     @ run K (s, (k, []) # cs)"
  by (cases s) (auto simp: Opt_def)

lemma run_COLOR_REGEX_rgb:
  assumes "body \<noteq> []" "\<forall>c\<in>set body. notParen c"
  shows "\<exists>cs'. run COLOR_REGEX (''rgb('' @ body @ '')'', cs) = [([], cs')]"
proof -
  let ?K = "Seq (Chr (CHR '')'')) Eps"
  have p: "run (Seq (Plus (Class notParen)) ?K) (u, c') =
             (if takeWhile notParen u = [] then [] else run ?K (dropWhile notParen u, c'))" for u c'
    by (rule run_Seq_Plus_Class) (simp add: notParen_def)
  have tw: "takeWhile notParen (body @ '')'') = body" "dropWhile notParen (body @ '')'') = '')''"
    using assms(2) by (simp_all add: takeWhile_append2 dropWhile_append2 notParen_def)
  have b: "run (Seq (Plus (Class notParen)) ?K) (body @ '')'', c') = [([], c')]" for c'
    unfolding p tw using assms(1) by simp
  have l: "length (''rgb('' @ body @ '')'') - length ([] :: string) = length (''rgb('' @ body @ '')'')"
    by simp
  show ?thesis
    unfolding COLOR_REGEX_def
    by (simp add: run_Str_Seq run_Seq_Chr run_Seq_Group_Opt_Chr b
          del: run.simps(4) Str.simps)
qed

lemma rgbText_shape:
  "rgbText r g b = ''rgb('' @ (showRadix 10 r @ '', '' @ showRadix 10 g @ '', '' @ showRadix 10 b) @ '')''"
  "rgbText r g b \<noteq> []" "hd (rgbText r g b) = CHR ''r''" "last (rgbText r g b) = CHR '')''"
  by (simp_all add: rgbText_def)

lemma rgbText_clean: "trim (toLowerCase (rgbText r g b)) = rgbText r g b"
proof -
  have "\<forall>c\<in>set (rgbText r g b). code c < 65 \<or> (90 < code c \<and> code c < 192)"
    using dec_facts(4) by (auto simp: rgbText_def code_def)
  then have "toLowerCase (rgbText r g b) = rgbText r g b"
    by (rule toLowerCase_id)
  moreover have "trim (rgbText r g b) = rgbText r g b"
    by (rule trim_id) (simp_all add: rgbText_shape(2,3,4) isSpace_def code_def)
  ultimately show ?thesis by simp
qed

lemma sampleAtFormatter_rgbText:
  "sampleAtFormatter (rgbText r g b) =
     Some (clampRgb \<lparr>rgb_r = Fin (real r), rgb_g = Fin (real g), rgb_b = Fin (real b), rgb_a = None\<rparr>)"
  by (simp add: sampleAtFormatter_def rgbText_clean parseColor_def startsWith_def
        rgbStringToRgb_rgbText)
     (simp add: rgbText_def)

lemma convertCssColors_rgbText:
  "convertCssColors (rgbText r g b) (Some opts) =
     Inr (formatColor opts (rgbText r g b)
            (clampRgb \<lparr>rgb_r = Fin (real r), rgb_g = Fin (real g), rgb_b = Fin (real b), rgb_a = None\<rparr>))"
proof -
  have body: "showRadix 10 r @ '', '' @ showRadix 10 g @ '', '' @ showRadix 10 b \<noteq> []"
    "\<forall>c\<in>set (showRadix 10 r @ '', '' @ showRadix 10 g @ '', '' @ showRadix 10 b). notParen c"
    using dec_facts(1,3) by (auto simp: notParen_def)
  obtain cs' where run: "run COLOR_REGEX (rgbText r g b, []) = [([], cs')]"
    using run_COLOR_REGEX_rgb[OF body] unfolding rgbText_shape(1)[symmetric] by blast
  obtain x xs where t: "rgbText r g b = x # xs"
    using rgbText_shape(2) by (cases "rgbText r g b") auto
  have "replaceAll COLOR_REGEX (convertCallback (Some opts)) (x # xs)
          = (case convertCallback (Some opts) (x # xs) of Inl e \<Rightarrow> Inl e | Inr u \<Rightarrow> Inr u)"
    by (rule replaceAll_whole[OF run[unfolded t] COLOR_REGEX_nonempty])
  then show ?thesis
    unfolding t[symmetric]
    by (simp add: convertCssColors_def rgbText_shape(2) convertCallback_def convertMatch_sample
          sampleAtFormatter_rgbText)
qed

section \<open>From hex to rgb and back\<close>

lemma run_COLOR_REGEX_hex6:
  assumes "isHexDigit h1" "isHexDigit h2" "isHexDigit h3" "isHexDigit h4" "isHexDigit h5" "isHexDigit h6"
  shows "\<exists>cs' others. run COLOR_REGEX ([CHR ''#'', h1, h2, h3, h4, h5, h6], []) = ([], cs') # others"
  using assms by (simp add: COLOR_REGEX_def Opt_def Rep_3_8)

lemma clean_hex6:
  assumes "isHexDigit h1" "isHexDigit h2" "isHexDigit h3" "isHexDigit h4" "isHexDigit h5" "isHexDigit h6"
  shows "trim (toLowerCase [CHR ''#'', h1, h2, h3, h4, h5, h6])
           = [CHR ''#'', lowerChar h1, lowerChar h2, lowerChar h3, lowerChar h4, lowerChar h5, lowerChar h6]"
proof -
  have "lowerChar (CHR ''#'') = CHR ''#''"
    by (simp add: lowerChar_def code_def)
  then have l: "toLowerCase [CHR ''#'', h1, h2, h3, h4, h5, h6]
           = [CHR ''#'', lowerChar h1, lowerChar h2, lowerChar h3, lowerChar h4, lowerChar h5, lowerChar h6]"
    by (simp add: toLowerCase_def)
  have "\<not> isSpace (lowerChar h6)"
    using hex_digit_facts(1)[OF hex_lower[OF assms(6)]] .
  then show ?thesis
    unfolding l by (intro trim_id) (simp_all add: isSpace_def code_def)
qed

lemma hexToRgb_hex6:
  assumes "l1 \<in> set ''0123456789abcdef''" "l2 \<in> set ''0123456789abcdef''"
    "l3 \<in> set ''0123456789abcdef''" "l4 \<in> set ''0123456789abcdef''"
    "l5 \<in> set ''0123456789abcdef''" "l6 \<in> set ''0123456789abcdef''"
  shows "hexToRgb [CHR ''#'', l1, l2, l3, l4, l5, l6] =
           Some \<lparr>rgb_r = Fin (real (the (digitVal l1) * 16 + the (digitVal l2))),
                 rgb_g = Fin (real (the (digitVal l3) * 16 + the (digitVal l4))),
                 rgb_b = Fin (real (the (digitVal l5) * 16 + the (digitVal l6))),
                 rgb_a = None\<rparr>"
  by (simp add: hexToRgb_def replaceAtStart_def substring_def Let_def
        parseInt_hex_pair[OF assms(1,2)] parseInt_hex_pair[OF assms(3,4)]
        parseInt_hex_pair[OF assms(5,6)] del: of_nat_add of_nat_mult)

lemma hex_pair_byte:
  assumes "l1 \<in> set ''0123456789abcdef''" "l2 \<in> set ''0123456789abcdef''"
  shows "the (digitVal l1) * 16 + the (digitVal l2) \<le> 255"
  using hex_digit_facts(7)[OF assms(1)] hex_digit_facts(7)[OF assms(2)] by simp

lemma clampRgb_bytes:
  assumes "r \<le> 255" "g \<le> 255" "b \<le> 255"
  shows "clampRgb \<lparr>rgb_r = Fin (real r), rgb_g = Fin (real g), rgb_b = Fin (real b), rgb_a = None\<rparr>
           = \<lparr>rgb_r = Fin (real r), rgb_g = Fin (real g), rgb_b = Fin (real b), rgb_a = None\<rparr>"
  using assms by (simp add: clampRgb_def clamp_byte)

lemma formatColor_rgb_opaque:
  "formatColor \<lparr>format = ''rgb'', useCssSyntax = True\<rparr> m
     \<lparr>rgb_r = Fin (real r), rgb_g = Fin (real g), rgb_b = Fin (real b), rgb_a = None\<rparr> = rgbText r g b"
  by (simp add: formatColor_def Number_toString_nat rgbText_def)

lemma formatColor_hex_opaque:
  "formatColor \<lparr>format = ''hex'', useCssSyntax = css\<rparr> m
     \<lparr>rgb_r = Fin (real r), rgb_g = Fin (real g), rgb_b = Fin (real b), rgb_a = None\<rparr>
     = (if css then ''#'' else []) @ toHex (Fin (real r)) @ toHex (Fin (real g)) @ toHex (Fin (real b))"
  by (simp add: formatColor_def rgbToHex_def)

lemma length6:
  assumes "length ds = 6"
  obtains h1 h2 h3 h4 h5 h6 where "ds = [h1, h2, h3, h4, h5, h6]"
  using assms by (auto simp: eval_nat_numeral length_Suc_conv)

text \<open>
  Claim C3.  For every token \<^verbatim>\<open>#\<close> followed by six hex digits, the conversion to rgb (CSS
  syntax) gives a text whose conversion to hex gives the six digits in lower case
  (after \<^verbatim>\<open>#\<close> when the CSS syntax is asked for).  The witness is \<^verbatim>\<open>#6750A4\<close>, which
  comes back as \<^verbatim>\<open>6750a4\<close>.
\<close>

theorem c3_hex_rgb_hex_roundtrip:
  assumes "length ds = 6" "\<forall>c\<in>set ds. isHexDigit c"
  shows "\<exists>mid. convertCssColors (CHR ''#'' # ds) (Some \<lparr>format = ''rgb'', useCssSyntax = True\<rparr>) = Inr mid
           \<and> convertCssColors mid (Some \<lparr>format = ''hex'', useCssSyntax = css\<rparr>)
               = Inr ((if css then ''#'' else []) @ toLowerCase ds)"
proof -
  from assms(1) obtain h1 h2 h3 h4 h5 h6 where ds: "ds = [h1, h2, h3, h4, h5, h6]"
    by (rule length6)
  have h: "isHexDigit h1" "isHexDigit h2" "isHexDigit h3" "isHexDigit h4" "isHexDigit h5" "isHexDigit h6"
    using assms(2) by (simp_all add: ds)
  note l = h[THEN hex_lower]
  define r where "r = the (digitVal (lowerChar h1)) * 16 + the (digitVal (lowerChar h2))"
  define g where "g = the (digitVal (lowerChar h3)) * 16 + the (digitVal (lowerChar h4))"
  define b where "b = the (digitVal (lowerChar h5)) * 16 + the (digitVal (lowerChar h6))"
  have bytes: "r \<le> 255" "g \<le> 255" "b \<le> 255"
    unfolding r_def g_def b_def
    by (rule hex_pair_byte[OF l(1,2)], rule hex_pair_byte[OF l(3,4)], rule hex_pair_byte[OF l(5,6)])
  have sample: "sampleAtFormatter (CHR ''#'' # ds)
      = Some \<lparr>rgb_r = Fin (real r), rgb_g = Fin (real g), rgb_b = Fin (real b), rgb_a = None\<rparr>"
    unfolding ds sampleAtFormatter_def clean_hex6[OF h] r_def g_def b_def
    using bytes[unfolded r_def g_def b_def]
    by (simp add: parseColor_def startsWith_def hexToRgb_hex6[OF l] clampRgb_bytes
          del: of_nat_add of_nat_mult)
  obtain cs' others where run: "run COLOR_REGEX (CHR ''#'' # ds, []) = ([], cs') # others"
    using run_COLOR_REGEX_hex6[OF h] unfolding ds by blast
  have "replaceAll COLOR_REGEX (convertCallback (Some \<lparr>format = ''rgb'', useCssSyntax = True\<rparr>)) (CHR ''#'' # ds)
          = (case convertCallback (Some \<lparr>format = ''rgb'', useCssSyntax = True\<rparr>) (CHR ''#'' # ds) of
               Inl e \<Rightarrow> Inl e | Inr u \<Rightarrow> Inr u)"
    by (rule replaceAll_whole[OF run COLOR_REGEX_nonempty])
  then have first: "convertCssColors (CHR ''#'' # ds) (Some \<lparr>format = ''rgb'', useCssSyntax = True\<rparr>)
                      = Inr (rgbText r g b)"
    by (simp add: convertCssColors_def convertCallback_def convertMatch_sample sample
          formatColor_rgb_opaque)
  have hex: "toHex (Fin (real r)) @ toHex (Fin (real g)) @ toHex (Fin (real b)) = toLowerCase ds"
    unfolding r_def g_def b_def
    by (simp add: toHex_hex_pair[OF l(1,2)] toHex_hex_pair[OF l(3,4)] toHex_hex_pair[OF l(5,6)]
          ds toLowerCase_def del: of_nat_add of_nat_mult)
  have second: "convertCssColors (rgbText r g b) (Some \<lparr>format = ''hex'', useCssSyntax = css\<rparr>)
                  = Inr ((if css then ''#'' else []) @ toLowerCase ds)"
    using hex by (simp add: convertCssColors_rgbText clampRgb_bytes[OF bytes] formatColor_hex_opaque)
  show ?thesis
    using first second by blast
qed

theorem c3_witness:
  "length ''6750A4'' = 6
   \<and> isHexDigit (CHR ''6'') \<and> isHexDigit (CHR ''7'') \<and> isHexDigit (CHR ''5'')
   \<and> isHexDigit (CHR ''0'') \<and> isHexDigit (CHR ''A'') \<and> isHexDigit (CHR ''4'')
   \<and> convertCssColors ''#6750A4'' (Some \<lparr>format = ''rgb'', useCssSyntax = True\<rparr>) = Inr ''rgb(103, 80, 164)''
   \<and> convertCssColors ''rgb(103, 80, 164)'' (Some \<lparr>format = ''hex'', useCssSyntax = False\<rparr>) = Inr ''6750a4''"
proof -
  have a: "length ''6750A4'' = 6" "\<forall>c\<in>set ''6750A4''. isHexDigit c"
    by (simp_all add: isHexDigit_def code_def)
  have f: "convertCssColors ''#6750A4'' (Some \<lparr>format = ''rgb'', useCssSyntax = True\<rparr>) = Inr ''rgb(103, 80, 164)''"
    by (simp add: eval_defs)
  have t: "toLowerCase ''6750A4'' = ''6750a4''"
    by (simp add: string_defs code_def)
  from c3_hex_rgb_hex_roundtrip[OF a, of False] f t
  have "convertCssColors ''rgb(103, 80, 164)'' (Some \<lparr>format = ''hex'', useCssSyntax = False\<rparr>) = Inr ''6750a4''"
    by auto
  with a f show ?thesis by simp
qed

section \<open>Clamping of an rgb token\<close>

lemma clamp_nat: "Math_max (Fin 0) (Math_min (Fin 255) (Fin (real n))) = Fin (real (min n 255))"
  by (simp add: Math_max_def Math_min_def min_def max_def)

lemma clampRgb_nat:
  "clampRgb \<lparr>rgb_r = Fin (real r), rgb_g = Fin (real g), rgb_b = Fin (real b), rgb_a = None\<rparr>
     = \<lparr>rgb_r = Fin (real (min r 255)), rgb_g = Fin (real (min g 255)),
        rgb_b = Fin (real (min b 255)), rgb_a = None\<rparr>"
  by (simp add: clampRgb_def clamp_nat)

text \<open>
  Claim C2, amended.  The token \<^verbatim>\<open>rgb(300, -20, 128)\<close> fails the rgb parse.  A token
  \<^verbatim>\<open>rgb(r, g, b)\<close> with unsigned channels reaches the formatter with each channel clamped
  into \<open>[0, 255]\<close>, and with format rgb and CSS syntax it becomes the token of the clamped
  channels: \<^verbatim>\<open>rgb(300, 20, 128)\<close> becomes \<^verbatim>\<open>rgb(255, 20, 128)\<close>, and \<^verbatim>\<open>ff1480\<close> with
  format hex.
\<close>

theorem c2_unsigned_channels_clamped:
  "rgbStringToRgb ''rgb(300, -20, 128)'' = None
   \<and> sampleAtFormatter (rgbText r g b)
       = Some \<lparr>rgb_r = Fin (real (min r 255)), rgb_g = Fin (real (min g 255)),
                rgb_b = Fin (real (min b 255)), rgb_a = None\<rparr>
   \<and> convertCssColors (rgbText r g b) (Some \<lparr>format = ''rgb'', useCssSyntax = True\<rparr>)
       = Inr (rgbText (min r 255) (min g 255) (min b 255))
   \<and> convertCssColors ''rgb(300, 20, 128)'' (Some \<lparr>format = ''rgb'', useCssSyntax = True\<rparr>)
       = Inr ''rgb(255, 20, 128)''
   \<and> convertCssColors ''rgb(300, 20, 128)'' (Some \<lparr>format = ''hex'', useCssSyntax = False\<rparr>)
       = Inr ''ff1480''"
proof -
  have 1: "rgbStringToRgb ''rgb(300, -20, 128)'' = None"
    by (simp add: eval_defs)
  have 2: "sampleAtFormatter (rgbText r g b)
       = Some \<lparr>rgb_r = Fin (real (min r 255)), rgb_g = Fin (real (min g 255)),
                rgb_b = Fin (real (min b 255)), rgb_a = None\<rparr>"
    by (simp only: sampleAtFormatter_rgbText clampRgb_nat)
  have 3: "convertCssColors (rgbText r g b) (Some \<lparr>format = ''rgb'', useCssSyntax = True\<rparr>)
       = Inr (rgbText (min r 255) (min g 255) (min b 255))"
    by (simp only: convertCssColors_rgbText clampRgb_nat formatColor_rgb_opaque)
  have 4: "convertCssColors ''rgb(300, 20, 128)'' (Some \<lparr>format = ''rgb'', useCssSyntax = True\<rparr>)
       = Inr ''rgb(255, 20, 128)''"
    "convertCssColors ''rgb(300, 20, 128)'' (Some \<lparr>format = ''hex'', useCssSyntax = False\<rparr>)
       = Inr ''ff1480''"
    by (simp_all add: eval_defs)
  show ?thesis
    using 1 2 3 4 by blast
qed

section \<open>The alpha of an oklch token\<close>

lemma oklchStringToRgb_alpha:
  assumes "exec oklchPattern s = Some (pre, mt, post, cs)"
  shows "map_option rgb_a (oklchStringToRgb s) =
           Some (case map_of cs 4 of
                   None \<Rightarrow> None
                 | Some al \<Rightarrow> Some (if endsWith al ''%'' then parseFloat al / Fin 100 else parseFloat al))"
  using assms
  by (simp add: oklchStringToRgb_def String_match_def Let_def split: prod.splits option.splits)

lemma formatColor_rgb_alpha_half:
  assumes "rgb_a rgb = Some (Fin (1 / 2))"
  shows "formatColor \<lparr>format = ''rgb'', useCssSyntax = False\<rparr> m (clampRgb rgb)
           = Number_toString (Math_round (rgb_r (clampRgb rgb))) @ '' '' @
             Number_toString (Math_round (rgb_g (clampRgb rgb))) @ '' '' @
             Number_toString (Math_round (rgb_b (clampRgb rgb))) @ '' / 0.5''"
proof -
  have a: "Number_toString (parseFloat (toFixed (Fin (1 / 2)) 2)) = ''0.5''"
    by (simp add: number_defs class_defs Let_def)
  have c: "rgb_a (clampRgb rgb) = Some (Fin (1 / 2))"
    using assms by (simp add: clampRgb_def)
  show ?thesis
    by (simp add: formatColor_def c less_number_def a)
qed

lemma exec_oklch_example:
  "exec oklchPattern ''oklch(59.69% 0.154 292.34 / 50%)''
     = Some ([], ''oklch(59.69% 0.154 292.34 / 50%)'', [],
             [(4, ''50%''), (3, ''292.34''), (2, ''0.154''), (1, ''59.69'')])"
  "exec oklchPattern ''oklch(59.69% 0.154 292.34 / 0.5)''
     = Some ([], ''oklch(59.69% 0.154 292.34 / 0.5)'', [],
             [(4, ''0.5''), (3, ''292.34''), (2, ''0.154''), (1, ''59.69'')])"
  by (simp_all add: class_defs pattern_defs)

text \<open>
  Claim C7.  Whatever the oklch pattern matches, the parser divides the alpha by 100 when
  the text of group 4 ends with \<^verbatim>\<open>%\<close> and takes it as it is otherwise; so
  \<^verbatim>\<open>/ 50%\<close> and \<^verbatim>\<open>/ 0.5\<close> both give the alpha \<open>1 / 2\<close>, and the input
  \<^verbatim>\<open>oklch(59.69% 0.154 292.34 / 50%)\<close> with format rgb and without CSS syntax gives three
  channels followed by \<^verbatim>\<open> / 0.5\<close>.
\<close>

theorem c7_oklch_alpha:
  "(exec oklchPattern s = Some (pre, mt, post, cs) \<longrightarrow>
      map_option rgb_a (oklchStringToRgb s) =
        Some (case map_of cs 4 of
                None \<Rightarrow> None
              | Some al \<Rightarrow> Some (if endsWith al ''%'' then parseFloat al / Fin 100 else parseFloat al)))
   \<and> map_option rgb_a (oklchStringToRgb ''oklch(59.69% 0.154 292.34 / 50%)'') = Some (Some (Fin (1 / 2)))
   \<and> map_option rgb_a (oklchStringToRgb ''oklch(59.69% 0.154 292.34 / 0.5)'') = Some (Some (Fin (1 / 2)))
   \<and> (\<exists>r g b. convertCssColors ''oklch(59.69% 0.154 292.34 / 50%)''
                  (Some \<lparr>format = ''rgb'', useCssSyntax = False\<rparr>)
                = Inr (r @ '' '' @ g @ '' '' @ b @ '' / 0.5''))"
proof -
  have pf: "parseFloat ''50%'' = Fin 50" "parseFloat ''0.5'' = Fin (1 / 2)"
    by (simp_all add: parseFloat_def class_defs digitsValue_def digitVal_def Let_def)
  have a1: "map_option rgb_a (oklchStringToRgb ''oklch(59.69% 0.154 292.34 / 50%)'') = Some (Some (Fin (1 / 2)))"
    by (simp add: oklchStringToRgb_alpha[OF exec_oklch_example(1)] endsWith_def pf divide_number_def)
  have a2: "map_option rgb_a (oklchStringToRgb ''oklch(59.69% 0.154 292.34 / 0.5)'') = Some (Some (Fin (1 / 2)))"
    by (simp add: oklchStringToRgb_alpha[OF exec_oklch_example(2)] endsWith_def pf)
  from a1 obtain rgb where rgb: "oklchStringToRgb ''oklch(59.69% 0.154 292.34 / 50%)'' = Some rgb"
    and al: "rgb_a rgb = Some (Fin (1 / 2))"
    by auto
  have cl: "trim (toLowerCase ''oklch(59.69% 0.154 292.34 / 50%)'') = ''oklch(59.69% 0.154 292.34 / 50%)''"
    by (simp add: string_defs class_defs)
  have sm: "sampleAtFormatter ''oklch(59.69% 0.154 292.34 / 50%)'' = Some (clampRgb rgb)"
    unfolding sampleAtFormatter_def cl by (simp add: parseColor_def startsWith_def rgb)
  have run: "run COLOR_REGEX (''oklch(59.69% 0.154 292.34 / 50%)'', [])
               = [([], [(6, ''oklch(59.69% 0.154 292.34 / 50%)'')])]"
    by (simp add: class_defs pattern_defs)
  have "convertCssColors ''oklch(59.69% 0.154 292.34 / 50%)'' (Some \<lparr>format = ''rgb'', useCssSyntax = False\<rparr>)
          = Inr (formatColor \<lparr>format = ''rgb'', useCssSyntax = False\<rparr> ''oklch(59.69% 0.154 292.34 / 50%)''
                   (clampRgb rgb))"
    using replaceAll_whole[OF run COLOR_REGEX_nonempty,
        of "convertCallback (Some \<lparr>format = ''rgb'', useCssSyntax = False\<rparr>)"]
    by (simp add: convertCssColors_def convertCallback_def convertMatch_sample sm)
  then have "\<exists>r g b. convertCssColors ''oklch(59.69% 0.154 292.34 / 50%)''
                  (Some \<lparr>format = ''rgb'', useCssSyntax = False\<rparr>)
                = Inr (r @ '' '' @ g @ '' '' @ b @ '' / 0.5'')"
    unfolding formatColor_rgb_alpha_half[OF al] by blast
  then show ?thesis
    using a1 a2 oklchStringToRgb_alpha[of s pre mt post cs] by blast
qed

theorem c7_witness:
  "exec oklchPattern ''oklch(59.69% 0.154 292.34 / 50%)''
     = Some ([], ''oklch(59.69% 0.154 292.34 / 50%)'', [],
             [(4, ''50%''), (3, ''292.34''), (2, ''0.154''), (1, ''59.69'')])
   \<and> map_option rgb_a (oklchStringToRgb ''oklch(59.69% 0.154 292.34 / 50%)'')
       = Some (Some (parseFloat ''50%'' / Fin 100))
   \<and> parseFloat ''50%'' / Fin 100 = Fin (1 / 2)"
proof -
  have pf: "parseFloat ''50%'' = Fin 50"
    by (simp add: parseFloat_def class_defs digitsValue_def digitVal_def Let_def)
  have e: "exec oklchPattern ''oklch(59.69% 0.154 292.34 / 50%)''
     = Some ([], ''oklch(59.69% 0.154 292.34 / 50%)'', [],
             [(4, ''50%''), (3, ''292.34''), (2, ''0.154''), (1, ''59.69'')])"
    by (simp add: class_defs pattern_defs)
  show ?thesis
    using c7_oklch_alpha[of "''oklch(59.69% 0.154 292.34 / 50%)''" "[]"
        "''oklch(59.69% 0.154 292.34 / 50%)''" "[]"
        "[(4, ''50%''), (3, ''292.34''), (2, ''0.154''), (1, ''59.69'')]"] e
    by (simp add: pf divide_number_def endsWith_def)
qed

section \<open>Signs, decimal points and percent signs in an rgb token\<close>

lemma code_bounds:
  "isDigit x \<Longrightarrow> code x < 65"
  "code (CHR ''-'') < 65" "code (CHR ''.'') < 65"
  "commaOrSpace x \<Longrightarrow> code x < 65 \<or> code x = 160"
  "isSpace x \<Longrightarrow> code x < 65 \<or> code x = 160"
  "commaOrSlash x \<Longrightarrow> code x < 65"
  "digitOrDot x \<Longrightarrow> code x < 65"
  "code (CHR ''%'') < 65"
  by (auto simp: commaOrSpace_def isSpace_def commaOrSlash_def digitOrDot_def isDigit_def code_def)

lemma channel_chars:
  assumes "isChannelText c"
  shows "c \<noteq> []" "\<forall>x\<in>set c. isDigit x \<or> x = CHR ''-'' \<or> x = CHR ''.''"
    "\<not> commaOrSpace (hd c)" "\<forall>x\<in>set c. code x < 65"
proof -
  show ne: "c \<noteq> []" and ch: "\<forall>x\<in>set c. isDigit x \<or> x = CHR ''-'' \<or> x = CHR ''.''"
    using assms by (simp_all add: isChannelText_def list_all_iff)
  have "hd c \<in> set c" using ne by simp
  with ch have "isDigit (hd c) \<or> hd c = CHR ''-'' \<or> hd c = CHR ''.''" by blast
  then show "\<not> commaOrSpace (hd c)"
    by (elim disjE) (simp_all add: class_disjoint(1), simp_all add: class_defs)
  show "\<forall>x\<in>set c. code x < 65"
    using ch code_bounds(1,2,3) by blast
qed

lemma separator_chars:
  assumes "isSeparator s"
  shows "s \<noteq> []" "\<forall>x\<in>set s. commaOrSpace x" "\<not> isDigit (hd s)"
    "\<forall>x\<in>set s. code x < 65 \<or> code x = 160"
proof -
  show ne: "s \<noteq> []" and ch: "\<forall>x\<in>set s. commaOrSpace x"
    using assms by (simp_all add: isSeparator_def list_all_iff)
  have "hd s \<in> set s" using ne by simp
  with ch have "commaOrSpace (hd s)" by blast
  then show "\<not> isDigit (hd s)" by (rule class_disjoint)
  show "\<forall>x\<in>set s. code x < 65 \<or> code x = 160"
    using ch code_bounds(4) by blast
qed

lemma bad_channel:
  assumes "isChannelText c" "\<not> list_all isDigit c"
  shows "\<exists>x t. dropWhile isDigit (c @ w) = x # t @ w \<and> (x = CHR ''-'' \<or> x = CHR ''.'')"
proof -
  from assms(2) obtain y where y: "y \<in> set c" "\<not> isDigit y"
    by (auto simp: list_all_iff)
  then have d: "dropWhile isDigit (c @ w) = dropWhile isDigit c @ w"
    by (simp add: dropWhile_append1)
  have ne: "dropWhile isDigit c \<noteq> []"
    using y by (auto simp: dropWhile_eq_Nil_conv)
  then obtain x t where xt: "dropWhile isDigit c = x # t"
    by (cases "dropWhile isDigit c") auto
  have "\<not> isDigit x"
    using hd_dropWhile[OF ne] xt by simp
  moreover have "x \<in> set c"
    using set_dropWhileD[of x isDigit c] xt by simp
  ultimately have "x = CHR ''-'' \<or> x = CHR ''.''"
    using channel_chars(2)[OF assms(1)] by blast
  then show ?thesis
    using d xt by simp
qed

lemma good_channel:
  assumes "list_all isDigit c" "w \<noteq> []" "\<not> isDigit (hd w)"
  shows "takeWhile isDigit (c @ w) = c" "dropWhile isDigit (c @ w) = w"
proof -
  have a: "\<And>x. x \<in> set c \<Longrightarrow> isDigit x"
    using assms(1) by (simp add: list_all_iff)
  have "takeWhile isDigit w = []" "dropWhile isDigit w = w"
    using assms(2,3) by (cases w; simp)+
  then show "takeWhile isDigit (c @ w) = c" "dropWhile isDigit (c @ w) = w"
    using a by (simp_all add: takeWhile_append2 dropWhile_append2)
qed

lemma separator_then:
  assumes "isSeparator s" "w \<noteq> []" "\<not> commaOrSpace (hd w)"
  shows "takeWhile commaOrSpace (s @ w) = s" "dropWhile commaOrSpace (s @ w) = w"
proof -
  have a: "\<And>x. x \<in> set s \<Longrightarrow> commaOrSpace x"
    using separator_chars(2)[OF assms(1)] by simp
  have "takeWhile commaOrSpace w = []" "dropWhile commaOrSpace w = w"
    using assms(2,3) by (cases w; simp)+
  then show "takeWhile commaOrSpace (s @ w) = s" "dropWhile commaOrSpace (s @ w) = w"
    using a by (simp_all add: takeWhile_append2 dropWhile_append2)
qed

lemma scan_bad_head:
  assumes "x = CHR ''-'' \<or> x = CHR ''.''"
  shows "takeWhile commaOrSpace (x # t) = []" "scanAlpha (x # t) cs = []" "scanClose (x # t) cs = []"
  using assms by (elim disjE; simp add: scanAlpha_def scanClose_def class_defs)+

lemma alpha_percent:
  assumes "isAlphaText al" "endsWith al ''%''"
  shows "scanAlpha (al @ '')'') cs = []" "scanClose (al @ '')'') cs = []"
    "al \<noteq> []" "\<not> isDigit (hd al)"
proof -
  show ne: "al \<noteq> []"
    using assms(2) by (auto simp: endsWith_def)
  with assms(1) obtain x t where xt: "dropWhile isSpace al = x # t" and x: "commaOrSlash x"
    and a: "takeWhile digitOrDot (dropWhile isSpace t) \<noteq> []"
    and p: "dropWhile digitOrDot (dropWhile isSpace t) = [] \<or> dropWhile digitOrDot (dropWhile isSpace t) = ''%''"
    by (auto simp: isAlphaText_def Let_def split: list.splits)
  define u where "u = dropWhile isSpace t"
  define w where "w = takeWhile isSpace al"
  have al: "al = w @ x # takeWhile isSpace t @ takeWhile digitOrDot u @ dropWhile digitOrDot u"
    unfolding w_def u_def
    by (metis append_Cons takeWhile_dropWhile_id xt)
  have pp: "dropWhile digitOrDot u = ''%''"
  proof (rule ccontr)
    assume "dropWhile digitOrDot u \<noteq> ''%''"
    with p have e: "dropWhile digitOrDot u = []" by (simp add: u_def)
    define a' where "a' = takeWhile digitOrDot u"
    define ts where "ts = takeWhile isSpace t"
    have a'ne: "a' \<noteq> []" using a by (simp add: a'_def u_def)
    have "al = (w @ x # ts) @ a'"
      using al e by (simp add: a'_def ts_def)
    then have "last al = last a'"
      using a'ne by (metis last_appendR)
    then have "last al = last (takeWhile digitOrDot u)"
      by (simp add: a'_def)
    moreover have "last (takeWhile digitOrDot u) \<in> set (takeWhile digitOrDot u)"
      using a by (simp add: u_def)
    ultimately have "digitOrDot (last al)"
      by (metis set_takeWhileD)
    moreover have "last al = CHR ''%''"
    proof -
      have "drop (length al - 1) al = ''%''"
        using assms(2) ne by (simp add: endsWith_def)
      moreover have "drop (length al - 1) al = [last al]"
        using ne by (metis append_butlast_last_id append_eq_conv_conj length_butlast)
      ultimately show ?thesis by simp
    qed
    ultimately show False
      by (simp add: class_defs)
  qed
  have xs: "\<not> isSpace x"
    using x class_disjoint(6) by blast
  have hd_al: "hd al = x \<or> isSpace (hd al)"
    by (metis hd_dropWhile list.sel(1) takeWhile_eq_all_conv takeWhile_dropWhile_id hd_append2
        dropWhile_eq_Nil_conv xt list.distinct(1) hd_in_set set_takeWhileD takeWhile.simps(1) append_Nil)
  then show "\<not> isDigit (hd al)"
    using x class_disjoint(2,3) by blast
  have "hd al \<noteq> CHR '')''"
    using hd_al x by (auto simp: class_defs)
  then show "scanClose (al @ '')'') cs = []"
    using ne by (cases al) (simp_all add: scanClose_def)
  have d1: "dropWhile isSpace (al @ '')'') = x # t @ '')''"
  proof -
    have "x \<in> set al"
      by (metis in_set_conv_decomp al)
    then have "dropWhile isSpace (al @ '')'') = dropWhile isSpace al @ '')''"
      using xs by (rule dropWhile_append1)
    then show ?thesis by (simp add: xt)
  qed
  have une: "u \<noteq> []"
    using a[folded u_def] by auto
  have d2: "dropWhile isSpace (t @ '')'') = u @ '')''"
  proof -
    have "hd u \<in> set t" "\<not> isSpace (hd u)"
      using une hd_dropWhile[of isSpace t] set_dropWhileD[of "hd u" isSpace t] by (simp_all add: u_def)
    then show ?thesis
      unfolding u_def by (rule dropWhile_append1)
  qed
  have pc: "CHR ''%'' \<in> set u" "\<not> digitOrDot (CHR ''%'')"
    using pp set_dropWhileD[of "CHR ''%''" digitOrDot u] by (simp_all add: class_defs)
  have d3: "takeWhile digitOrDot (u @ '')'') = takeWhile digitOrDot u"
    "dropWhile digitOrDot (u @ '')'') = ''%)''"
    using pc pp by (simp_all add: takeWhile_append1 dropWhile_append1)
  show "scanAlpha (al @ '')'') cs = []"
    using x a[folded u_def] by (simp add: scanAlpha_def d1 d2 d3 Let_def scanClose_def)
qed

lemma scanChannels_bad:
  assumes c: "isChannelText c1" "isChannelText c2" "isChannelText c3"
    and s: "isSeparator s1" "isSeparator s2"
    and al: "isAlphaText al"
    and bad: "\<not> list_all isDigit c1 \<or> \<not> list_all isDigit c2 \<or> \<not> list_all isDigit c3 \<or> endsWith al ''%''"
  shows "scanChannels (c1 @ s1 @ c2 @ s2 @ c3 @ al @ '')'') cs = []"
proof -
  define w5 where "w5 = al @ '')''"
  define w4 where "w4 = c3 @ w5"
  define w3 where "w3 = s2 @ w4"
  define w2 where "w2 = c2 @ w3"
  define w1 where "w1 = s1 @ w2"
  have t: "c1 @ s1 @ c2 @ s2 @ c3 @ al @ '')'' = c1 @ w1"
    by (simp add: w1_def w2_def w3_def w4_def w5_def)
  have h1: "w1 \<noteq> []" "\<not> isDigit (hd w1)"
    using separator_chars(1,3)[OF s(1)] by (simp_all add: w1_def)
  have h2: "w2 \<noteq> []" "\<not> commaOrSpace (hd w2)"
    using channel_chars(1,3)[OF c(2)] by (simp_all add: w2_def)
  have h3: "w3 \<noteq> []" "\<not> isDigit (hd w3)"
    using separator_chars(1,3)[OF s(2)] by (simp_all add: w3_def)
  have h4: "w4 \<noteq> []" "\<not> commaOrSpace (hd w4)"
    using channel_chars(1,3)[OF c(3)] by (simp_all add: w4_def)
  show ?thesis
  proof (cases "list_all isDigit c1")
    case False
    obtain x u where xu: "dropWhile isDigit (c1 @ w1) = x # u @ w1" "x = CHR ''-'' \<or> x = CHR ''.''"
      using bad_channel[OF c(1) False] by blast
    have "takeWhile commaOrSpace (dropWhile isDigit (c1 @ w1)) = []"
      by (simp only: xu(1) scan_bad_head(1)[OF xu(2)])
    then show ?thesis
      unfolding t by (simp add: scanChannels_def Let_def)
  next
    case g1: True
    have d1: "dropWhile isDigit (c1 @ w1) = s1 @ w2"
      using good_channel(2)[OF g1 h1] by (simp add: w1_def)
    have d2: "dropWhile commaOrSpace (s1 @ w2) = c2 @ w3"
      using separator_then(2)[OF s(1) h2] by (simp add: w2_def)
    show ?thesis
    proof (cases "list_all isDigit c2")
      case False
      obtain x u where xu: "dropWhile isDigit (c2 @ w3) = x # u @ w3" "x = CHR ''-'' \<or> x = CHR ''.''"
        using bad_channel[OF c(2) False] by blast
      have "takeWhile commaOrSpace (dropWhile isDigit (c2 @ w3)) = []"
        by (simp only: xu(1) scan_bad_head(1)[OF xu(2)])
      then show ?thesis
        unfolding t by (simp add: scanChannels_def Let_def d1 d2)
    next
      case g2: True
      have d3: "dropWhile isDigit (c2 @ w3) = s2 @ w4"
        using good_channel(2)[OF g2 h3] by (simp add: w3_def)
      have d4: "dropWhile commaOrSpace (s2 @ w4) = c3 @ w5"
        using separator_then(2)[OF s(2) h4] by (simp add: w4_def)
      show ?thesis
      proof (cases "list_all isDigit c3")
        case False
        obtain x u where xu: "dropWhile isDigit (c3 @ w5) = x # u @ w5" "x = CHR ''-'' \<or> x = CHR ''.''"
          using bad_channel[OF c(3) False] by blast
        have "scanAlpha (dropWhile isDigit (c3 @ w5)) cs' = []"
          "scanClose (dropWhile isDigit (c3 @ w5)) cs' = []" for cs'
          by (simp_all only: xu(1) scan_bad_head(2,3)[OF xu(2)])
        then show ?thesis
          unfolding t by (simp add: scanChannels_def Let_def d1 d2 d3 d4)
      next
        case g3: True
        then have p: "endsWith al ''%''"
          using bad g1 g2 by blast
        have h5: "w5 \<noteq> []" "\<not> isDigit (hd w5)"
          using alpha_percent(3,4)[OF al p] by (simp_all add: w5_def)
        have d5: "dropWhile isDigit (c3 @ w5) = al @ '')''"
          using good_channel(2)[OF g3 h5] by (simp add: w5_def)
        show ?thesis
          unfolding t
          by (simp add: scanChannels_def Let_def d1 d2 d3 d4 d5 alpha_percent(1,2)[OF al p])
      qed
    qed
  qed
qed

lemma alpha_chars:
  assumes "isAlphaText al"
  shows "\<forall>c\<in>set al. isSpace c \<or> commaOrSlash c \<or> digitOrDot c \<or> c = CHR ''%''"
proof (cases "al = []")
  case True
  then show ?thesis by simp
next
  case False
  with assms obtain x t where xt: "dropWhile isSpace al = x # t" and x: "commaOrSlash x"
    and p: "dropWhile digitOrDot (dropWhile isSpace t) = [] \<or> dropWhile digitOrDot (dropWhile isSpace t) = ''%''"
    by (auto simp: isAlphaText_def Let_def split: list.splits)
  define u where "u = dropWhile isSpace t"
  let ?P = "\<lambda>c. isSpace c \<or> commaOrSlash c \<or> digitOrDot c \<or> c = CHR ''%''"
  have al: "al = takeWhile isSpace al @ x # takeWhile isSpace t @ takeWhile digitOrDot u @ dropWhile digitOrDot u"
    unfolding u_def by (metis append_Cons takeWhile_dropWhile_id xt)
  have 1: "\<forall>c\<in>set (takeWhile isSpace v). ?P c" for v
    by (auto dest: set_takeWhileD)
  have 2: "\<forall>c\<in>set (takeWhile digitOrDot u). ?P c"
    by (auto dest: set_takeWhileD)
  have 3: "\<forall>c\<in>set (dropWhile digitOrDot u). ?P c"
  proof -
    from p[folded u_def] show ?thesis
    proof
      assume "dropWhile digitOrDot u = []"
      then show ?thesis by (simp only: list.set ball_empty)
    next
      assume e: "dropWhile digitOrDot u = ''%''"
      show ?thesis
        unfolding e by simp
    qed
  qed
  have "\<forall>c\<in>set (takeWhile isSpace al @ x # takeWhile isSpace t @ takeWhile digitOrDot u @ dropWhile digitOrDot u). ?P c"
    using 1[of al] 1[of t] 2 3 x by (simp add: ball_Un del: takeWhile_dropWhile_id)
  then show ?thesis
    by (subst al)
qed

lemma paren_bounds:
  "isDigit x \<Longrightarrow> code x \<noteq> 41"
  "code (CHR ''-'') \<noteq> 41" "code (CHR ''.'') \<noteq> 41"
  "commaOrSpace x \<Longrightarrow> code x \<noteq> 41"
  "isSpace x \<Longrightarrow> code x \<noteq> 41"
  "commaOrSlash x \<Longrightarrow> code x \<noteq> 41"
  "digitOrDot x \<Longrightarrow> code x \<noteq> 41"
  "code (CHR ''%'') \<noteq> 41"
  by (auto simp: commaOrSpace_def isSpace_def commaOrSlash_def digitOrDot_def isDigit_def code_def)

lemma body_char:
  assumes "isDigit c \<or> c = CHR ''-'' \<or> c = CHR ''.'' \<or> commaOrSpace c \<or> isSpace c \<or>
           commaOrSlash c \<or> digitOrDot c \<or> c = CHR ''%''"
  shows "code c < 65 \<or> (90 < code c \<and> code c < 192)" "notParen c" "c \<noteq> CHR ''r''"
proof -
  have 1: "code c < 65 \<or> code c = 160"
    using assms code_bounds by blast
  have 2: "code c \<noteq> 41"
    using assms paren_bounds by blast
  show "code c < 65 \<or> (90 < code c \<and> code c < 192)"
    using 1 by auto
  have "code (CHR '')'') = 41" "code (CHR ''r'') = 114"
    by (simp_all add: code_def)
  then show "notParen c" "c \<noteq> CHR ''r''"
    using 1 2 by (auto simp: notParen_def)
qed

lemma token_chars:
  assumes "isChannelText c1" "isChannelText c2" "isChannelText c3" "isSeparator s1" "isSeparator s2"
    "isAlphaText al"
  shows "\<forall>c\<in>set (c1 @ s1 @ c2 @ s2 @ c3 @ al).
           (code c < 65 \<or> (90 < code c \<and> code c < 192)) \<and> notParen c \<and> c \<noteq> CHR ''r''"
proof (intro ballI conjI)
  fix c
  assume "c \<in> set (c1 @ s1 @ c2 @ s2 @ c3 @ al)"
  then consider "c \<in> set c1" | "c \<in> set c2" | "c \<in> set c3" | "c \<in> set s1" | "c \<in> set s2"
    | "c \<in> set al"
    by auto
  then have d: "isDigit c \<or> c = CHR ''-'' \<or> c = CHR ''.'' \<or> commaOrSpace c \<or> isSpace c \<or>
           commaOrSlash c \<or> digitOrDot c \<or> c = CHR ''%''"
  proof cases
    case 1
    then show ?thesis using channel_chars(2)[OF assms(1)] by blast
  next
    case 2
    then show ?thesis using channel_chars(2)[OF assms(2)] by blast
  next
    case 3
    then show ?thesis using channel_chars(2)[OF assms(3)] by blast
  next
    case 4
    then show ?thesis using separator_chars(2)[OF assms(4)] by blast
  next
    case 5
    then show ?thesis using separator_chars(2)[OF assms(5)] by blast
  next
    case 6
    then show ?thesis using alpha_chars[OF assms(6)] by blast
  qed
  show "code c < 65 \<or> (90 < code c \<and> code c < 192)" "notParen c" "c \<noteq> CHR ''r''"
    by (rule body_char[OF d])+
qed

lemma scanRgb_no_r: "scanRgb [] cs = []" "CHR ''r'' \<noteq> x \<Longrightarrow> scanRgb (x # xs) cs = []"
  by (auto simp: scanRgb_def)

lemma exec_rgbPattern_no_r: "CHR ''r'' \<notin> set s \<Longrightarrow> exec rgbPattern s = None"
  by (induction s) (simp_all add: run_rgbPattern scanRgb_no_r del: run.simps)

lemma exec_rgbPattern_None:
  assumes "scanRgb (x # xs) [] = []" "CHR ''r'' \<notin> set xs"
  shows "exec rgbPattern (x # xs) = None"
  using assms by (simp add: run_rgbPattern exec_rgbPattern_no_r del: run.simps)

lemma rgbToken_shape:
  assumes "kw = ''rgb'' \<or> kw = ''rgba''"
  shows "rgbTokenText kw c1 s1 c2 s2 c3 al \<noteq> []"
    "hd (rgbTokenText kw c1 s1 c2 s2 c3 al) = CHR ''r''"
    "last (rgbTokenText kw c1 s1 c2 s2 c3 al) = CHR '')''"
    "startsWith (rgbTokenText kw c1 s1 c2 s2 c3 al) ''rgb''"
    "\<not> startsWith (rgbTokenText kw c1 s1 c2 s2 c3 al) ''#''"
  using assms by (auto simp: rgbTokenText_def startsWith_def)

lemma rgbToken_clean:
  assumes kw: "kw = ''rgb'' \<or> kw = ''rgba''"
    and c: "isChannelText c1" "isChannelText c2" "isChannelText c3"
    and s: "isSeparator s1" "isSeparator s2"
    and al: "isAlphaText al"
  shows "trim (toLowerCase (rgbTokenText kw c1 s1 c2 s2 c3 al)) = rgbTokenText kw c1 s1 c2 s2 c3 al"
proof -
  let ?tok = "rgbTokenText kw c1 s1 c2 s2 c3 al"
  have b: "\<forall>c\<in>set (c1 @ s1 @ c2 @ s2 @ c3 @ al). code c < 65 \<or> (90 < code c \<and> code c < 192)"
    using token_chars[OF c s al] by blast
  have k: "\<forall>c\<in>set (kw @ ''('' @ '')''). code c < 65 \<or> (90 < code c \<and> code c < 192)"
    using kw by (auto simp: code_def)
  have "set ?tok = set (kw @ ''('' @ '')'') \<union> set (c1 @ s1 @ c2 @ s2 @ c3 @ al)"
    by (auto simp: rgbTokenText_def)
  then have "\<forall>c\<in>set ?tok. code c < 65 \<or> (90 < code c \<and> code c < 192)"
    using b k by (simp only: ball_Un)
  then have "toLowerCase ?tok = ?tok"
    by (rule toLowerCase_id)
  moreover have "trim ?tok = ?tok"
    by (rule trim_id) (simp_all add: rgbToken_shape(1,2,3)[OF kw] isSpace_def code_def)
  ultimately show ?thesis by simp
qed

lemma rgbToken_exec_None:
  assumes kw: "kw = ''rgb'' \<or> kw = ''rgba''"
    and c: "isChannelText c1" "isChannelText c2" "isChannelText c3"
    and s: "isSeparator s1" "isSeparator s2"
    and al: "isAlphaText al"
    and bad: "\<not> list_all isDigit c1 \<or> \<not> list_all isDigit c2 \<or> \<not> list_all isDigit c3 \<or> endsWith al ''%''"
  shows "exec rgbPattern (rgbTokenText kw c1 s1 c2 s2 c3 al) = None"
proof -
  define body where "body = c1 @ s1 @ c2 @ s2 @ c3 @ al"
  have sc: "scanChannels (body @ '')'') [] = []"
    using scanChannels_bad[OF c s al bad, of "[]"] by (simp add: body_def)
  have nr: "CHR ''r'' \<notin> set body"
    using token_chars[OF c s al] unfolding body_def by blast
  from kw show ?thesis
  proof
    assume k: "kw = ''rgb''"
    have "exec rgbPattern (CHR ''r'' # ''gb('' @ body @ '')'') = None"
      by (rule exec_rgbPattern_None) (use sc nr in \<open>simp_all add: scanRgb_def\<close>)
    then show ?thesis by (simp add: rgbTokenText_def body_def k del: exec.simps)
  next
    assume k: "kw = ''rgba''"
    have "exec rgbPattern (CHR ''r'' # ''gba('' @ body @ '')'') = None"
      by (rule exec_rgbPattern_None) (use sc nr in \<open>simp_all add: scanRgb_def\<close>)
    then show ?thesis by (simp add: rgbTokenText_def body_def k del: exec.simps)
  qed
qed

lemma rgbToken_callback:
  assumes kw: "kw = ''rgb'' \<or> kw = ''rgba''"
    and c: "isChannelText c1" "isChannelText c2" "isChannelText c3"
    and s: "isSeparator s1" "isSeparator s2"
    and al: "isAlphaText al"
    and bad: "\<not> list_all isDigit c1 \<or> \<not> list_all isDigit c2 \<or> \<not> list_all isDigit c3 \<or> endsWith al ''%''"
  shows "rgbStringToRgb (rgbTokenText kw c1 s1 c2 s2 c3 al) = None"
    "convertCallback opts (rgbTokenText kw c1 s1 c2 s2 c3 al) = Inr (rgbTokenText kw c1 s1 c2 s2 c3 al)"
proof -
  show p: "rgbStringToRgb (rgbTokenText kw c1 s1 c2 s2 c3 al) = None"
    by (simp add: rgbStringToRgb_def String_match_def rgbToken_exec_None[OF kw c s al bad])
  show "convertCallback opts (rgbTokenText kw c1 s1 c2 s2 c3 al) = Inr (rgbTokenText kw c1 s1 c2 s2 c3 al)"
    by (simp add: convertCallback_def convertMatch_def rgbToken_clean[OF kw c s al] parseColor_def
          rgbToken_shape(4,5)[OF kw] p)
qed

lemma run_COLOR_REGEX_rgba:
  assumes "body \<noteq> []" "\<forall>c\<in>set body. notParen c"
  shows "\<exists>cs'. run COLOR_REGEX (''rgba('' @ body @ '')'', cs) = [([], cs')]"
proof -
  let ?K = "Seq (Chr (CHR '')'')) Eps"
  have p: "run (Seq (Plus (Class notParen)) ?K) (u, c') =
             (if takeWhile notParen u = [] then [] else run ?K (dropWhile notParen u, c'))" for u c'
    by (rule run_Seq_Plus_Class) (simp add: notParen_def)
  have tw: "takeWhile notParen (body @ '')'') = body" "dropWhile notParen (body @ '')'') = '')''"
    using assms(2) by (simp_all add: takeWhile_append2 dropWhile_append2 notParen_def)
  have b: "run (Seq (Plus (Class notParen)) ?K) (body @ '')'', c') = [([], c')]" for c'
    unfolding p tw using assms(1) by simp
  show ?thesis
    unfolding COLOR_REGEX_def
    by (simp add: run_Str_Seq run_Seq_Chr run_Seq_Group_Opt_Chr b
          del: run.simps(4) Str.simps)
qed

lemma rgbToken_convert:
  assumes kw: "kw = ''rgb'' \<or> kw = ''rgba''"
    and c: "isChannelText c1" "isChannelText c2" "isChannelText c3"
    and s: "isSeparator s1" "isSeparator s2"
    and al: "isAlphaText al"
    and bad: "\<not> list_all isDigit c1 \<or> \<not> list_all isDigit c2 \<or> \<not> list_all isDigit c3 \<or> endsWith al ''%''"
  shows "convertCssColors (rgbTokenText kw c1 s1 c2 s2 c3 al) opts = Inr (rgbTokenText kw c1 s1 c2 s2 c3 al)"
proof -
  let ?tok = "rgbTokenText kw c1 s1 c2 s2 c3 al"
  define body where "body = c1 @ s1 @ c2 @ s2 @ c3 @ al"
  have body: "body \<noteq> []" "\<forall>c\<in>set body. notParen c"
  proof -
    show "body \<noteq> []"
      using channel_chars(1)[OF c(1)] by (simp add: body_def)
    show "\<forall>c\<in>set body. notParen c"
      using token_chars[OF c s al] unfolding body_def by blast
  qed
  have tok: "?tok = kw @ ''('' @ body @ '')''"
    by (simp add: rgbTokenText_def body_def)
  obtain cs' where run: "run COLOR_REGEX (?tok, []) = [([], cs')]"
    using kw run_COLOR_REGEX_rgb[OF body, of "[]"] run_COLOR_REGEX_rgba[OF body, of "[]"]
    unfolding tok by auto
  obtain x xs where t: "?tok = x # xs"
    using rgbToken_shape(1)[OF kw] by (cases ?tok) auto
  have "replaceAll COLOR_REGEX (convertCallback opts) (x # xs)
          = (case convertCallback opts (x # xs) of Inl e \<Rightarrow> Inl e | Inr u \<Rightarrow> Inr u)"
    by (rule replaceAll_whole[OF run[unfolded t] COLOR_REGEX_nonempty])
  then show ?thesis
    using rgbToken_callback(2)[OF kw c s al bad, of opts]
    by (simp add: convertCssColors_def t[symmetric] rgbToken_shape(1)[OF kw])
qed

lemma scanClose_result:
  "(s', cs') \<in> set (scanClose s cs) \<Longrightarrow> s = CHR '')'' # s' \<and> cs' = cs"
  by (cases s) (auto simp: scanClose_def split: if_splits)

lemma takeWhile_class: "list_all p (takeWhile p s)"
  by (induction s) simp_all

lemma scanAlpha_result:
  assumes "(s', cs') \<in> set (scanAlpha s cs)"
  shows "\<exists>g. cs' = (4, g) # cs \<and> isDigitsAndDots g \<and> suffix (g @ CHR '')'' # s') s"
proof (cases "dropWhile isSpace s")
  case Nil
  then show ?thesis
    using assms unfolding scanAlpha_def Nil by simp
next
  case (Cons x t)
  note xt = Cons
  have g: "takeWhile digitOrDot (dropWhile isSpace t) \<noteq> []"
    and r: "(s', cs') \<in> set (scanClose (dropWhile digitOrDot (dropWhile isSpace t))
                                 ((4, takeWhile digitOrDot (dropWhile isSpace t)) # cs))"
    using assms unfolding scanAlpha_def xt by (auto simp: Let_def split: if_splits)
  define u where "u = dropWhile isSpace t"
  have d: "dropWhile digitOrDot u = CHR '')'' # s'" and c: "cs' = (4, takeWhile digitOrDot u) # cs"
    using scanClose_result[OF r] by (simp_all add: u_def)
  have "u = takeWhile digitOrDot u @ CHR '')'' # s'"
    using takeWhile_dropWhile_id[of digitOrDot u] d by simp
  moreover have "suffix u t"
    unfolding u_def by (rule suffix_dropWhile)
  moreover have "suffix t (x # t)"
    by (simp add: suffix_ConsI)
  moreover have "suffix (x # t) s"
    using suffix_dropWhile[of isSpace s] xt by simp
  ultimately have "suffix (takeWhile digitOrDot u @ CHR '')'' # s') s"
    by (metis suffix_order.trans)
  then show ?thesis
    using c g by (simp add: isDigitsAndDots_def takeWhile_class u_def)
qed

lemma scanChannels_result:
  assumes "(s', cs') \<in> set (scanChannels s cs)"
  shows "\<exists>g1 g2 g3. isUnsignedInteger g1 \<and> isUnsignedInteger g2 \<and> isUnsignedInteger g3 \<and>
           (cs' = (3, g3) # (2, g2) # (1, g1) # cs \<or>
            (\<exists>g4. cs' = (4, g4) # (3, g3) # (2, g2) # (1, g1) # cs \<and> isDigitsAndDots g4 \<and>
                   suffix (g4 @ CHR '')'' # s') s))"
proof -
  define s1 where "s1 = dropWhile isDigit s"
  define s2 where "s2 = dropWhile commaOrSpace s1"
  define s3 where "s3 = dropWhile isDigit s2"
  define s4 where "s4 = dropWhile commaOrSpace s3"
  define s5 where "s5 = dropWhile isDigit s4"
  define g1 where "g1 = takeWhile isDigit s"
  define g2 where "g2 = takeWhile isDigit s2"
  define g3 where "g3 = takeWhile isDigit s4"
  define cs3 where "cs3 = (3, g3) # (2, g2) # (1, g1) # cs"
  have sc: "scanChannels s cs =
              (if g1 = [] \<or> takeWhile commaOrSpace s1 = [] \<or> g2 = [] \<or>
                  takeWhile commaOrSpace s3 = [] \<or> g3 = []
               then [] else scanAlpha s5 cs3 @ scanClose s5 cs3)"
    by (simp add: scanChannels_def Let_def s1_def s2_def s3_def s4_def s5_def g1_def g2_def g3_def cs3_def)
  from assms have ne: "g1 \<noteq> []" "g2 \<noteq> []" "g3 \<noteq> []"
    and r: "(s', cs') \<in> set (scanAlpha s5 cs3) \<or> (s', cs') \<in> set (scanClose s5 cs3)"
    unfolding sc by (auto split: if_splits)
  have u: "isUnsignedInteger g1" "isUnsignedInteger g2" "isUnsignedInteger g3"
    using ne by (simp_all add: isUnsignedInteger_def) (simp_all add: g1_def g2_def g3_def takeWhile_class)
  have suf: "suffix s5 s"
  proof -
    have "suffix s5 s4" "suffix s4 s3" "suffix s3 s2" "suffix s2 s1" "suffix s1 s"
      unfolding s1_def s2_def s3_def s4_def s5_def by (rule suffix_dropWhile)+
    then show ?thesis
      by (metis suffix_order.trans)
  qed
  from r show ?thesis
  proof
    assume "(s', cs') \<in> set (scanAlpha s5 cs3)"
    then obtain g4 where "cs' = (4, g4) # cs3" "isDigitsAndDots g4" "suffix (g4 @ CHR '')'' # s') s5"
      using scanAlpha_result by blast
    then have "cs' = (4, g4) # (3, g3) # (2, g2) # (1, g1) # cs \<and> isDigitsAndDots g4 \<and>
                   suffix (g4 @ CHR '')'' # s') s"
      using suf by (auto simp: cs3_def intro: suffix_order.trans)
    then show ?thesis
      using u by blast
  next
    assume "(s', cs') \<in> set (scanClose s5 cs3)"
    then have "cs' = (3, g3) # (2, g2) # (1, g1) # cs"
      using scanClose_result by (auto simp: cs3_def)
    then show ?thesis
      using u by blast
  qed
qed

lemma rgbPattern_groups:
  assumes "(s', cs') \<in> set (run rgbPattern (s, []))"
  shows "\<exists>g1 g2 g3. map_of cs' 1 = Some g1 \<and> map_of cs' 2 = Some g2 \<and> map_of cs' 3 = Some g3 \<and>
           isUnsignedInteger g1 \<and> isUnsignedInteger g2 \<and> isUnsignedInteger g3"
    "case map_of cs' 4 of None \<Rightarrow> True
     | Some g4 \<Rightarrow> isDigitsAndDots g4 \<and> suffix (g4 @ '')'' @ s') s"
proof -
  from assms obtain n where "(s', cs') \<in> set (scanChannels (drop n s) [])"
    unfolding run_rgbPattern scanRgb_def by (auto split: if_splits)
  then obtain g1 g2 g3 where u: "isUnsignedInteger g1" "isUnsignedInteger g2" "isUnsignedInteger g3"
    and c: "cs' = [(3, g3), (2, g2), (1, g1)] \<or>
            (\<exists>g4. cs' = [(4, g4), (3, g3), (2, g2), (1, g1)] \<and> isDigitsAndDots g4 \<and>
                   suffix (g4 @ CHR '')'' # s') (drop n s))"
    using scanChannels_result[of s' cs' "drop n s" "[]"] by blast
  have sd: "suffix v (drop n s) \<Longrightarrow> suffix v s" for v
    using suffix_drop[of n s] by (metis suffix_order.trans)
  from c show "\<exists>g1 g2 g3. map_of cs' 1 = Some g1 \<and> map_of cs' 2 = Some g2 \<and> map_of cs' 3 = Some g3 \<and>
           isUnsignedInteger g1 \<and> isUnsignedInteger g2 \<and> isUnsignedInteger g3"
    using u by auto
  from c show "case map_of cs' 4 of None \<Rightarrow> True
     | Some g4 \<Rightarrow> isDigitsAndDots g4 \<and> suffix (g4 @ '')'' @ s') s"
    using sd by auto
qed

lemma exec_Cons_None: "exec r (x # xs) = None \<longleftrightarrow> run r (x # xs, []) = [] \<and> exec r xs = None"
  by (auto split: list.splits)

lemma rgbStringToRgb_None: "rgbStringToRgb s = None \<longleftrightarrow> exec rgbPattern s = None"
  by (simp add: rgbStringToRgb_def String_match_def split: option.splits)

lemma code_lowerChar:
  "code (lowerChar c) =
     (if (65 \<le> code c \<and> code c \<le> 90) \<or> (192 \<le> code c \<and> code c \<le> 222 \<and> code c \<noteq> 215)
      then code c + 32 else code c)"
  by (auto simp: lowerChar_def code_def)

lemma lowerChar_low: "code c < 65 \<Longrightarrow> lowerChar c = c"
  by (simp add: lowerChar_def)

lemma lowerChar_paren: "lowerChar c = CHR '')'' \<longleftrightarrow> c = CHR '')''"
proof
  assume "lowerChar c = CHR '')''"
  then have "code (lowerChar c) = 41" by (simp add: code_def)
  then have "code c = 41" by (simp add: code_lowerChar split: if_splits)
  then show "c = CHR '')''" by (simp add: char_eq_code[of c] code_def)
next
  assume "c = CHR '')''"
  then show "lowerChar c = CHR '')''" by (simp add: lowerChar_def code_def)
qed

lemma digitOrDot_lowerChar: "digitOrDot (lowerChar c) = digitOrDot c" "digitOrDot c \<Longrightarrow> lowerChar c = c"
proof -
  show l: "digitOrDot c \<Longrightarrow> lowerChar c = c"
    using code_bounds(7)[of c] by (simp add: lowerChar_low)
  show "digitOrDot (lowerChar c) = digitOrDot c"
  proof
    assume d: "digitOrDot (lowerChar c)"
    then have "code (lowerChar c) < 65" by (rule code_bounds(7))
    then have "code c < 65" by (simp add: code_lowerChar split: if_splits)
    then have "lowerChar c = c" by (rule lowerChar_low)
    with d show "digitOrDot c" by simp
  next
    assume "digitOrDot c"
    then show "digitOrDot (lowerChar c)" using l by simp
  qed
qed

lemma numeralsFrom_lower: "numeralsFrom cur (map lowerChar s) = numeralsFrom cur s"
  by (induction s arbitrary: cur) (simp_all add: digitOrDot_lowerChar)

lemma hasDecimalChannel_lower: "hasDecimalChannel (toLowerCase body) = hasDecimalChannel body"
  by (simp add: hasDecimalChannel_def numerals_def toLowerCase_def numeralsFrom_lower)

lemma lower_keeps:
  "CHR ''-'' \<in> set body \<Longrightarrow> CHR ''-'' \<in> set (toLowerCase body)"
  "CHR ''%'' \<in> set body \<Longrightarrow> CHR ''%'' \<in> set (toLowerCase body)"
  "CHR '')'' \<notin> set body \<Longrightarrow> CHR '')'' \<notin> set (toLowerCase body)"
proof -
  have "lowerChar (CHR ''-'') = CHR ''-''" "lowerChar (CHR ''%'') = CHR ''%''"
    by (simp_all add: lowerChar_def code_def)
  then show "CHR ''-'' \<in> set body \<Longrightarrow> CHR ''-'' \<in> set (toLowerCase body)"
    "CHR ''%'' \<in> set body \<Longrightarrow> CHR ''%'' \<in> set (toLowerCase body)"
    unfolding toLowerCase_def by (metis image_eqI set_map)+
  show "CHR '')'' \<notin> set body \<Longrightarrow> CHR '')'' \<notin> set (toLowerCase body)"
    unfolding toLowerCase_def using lowerChar_paren by (metis imageE set_map)
qed

lemma rgbToken_cleaned:
  assumes "kw = ''rgb'' \<or> kw = ''rgba''"
  shows "trim (toLowerCase (rgbToken kw body)) = rgbToken kw (toLowerCase body)"
proof -
  have l: "toLowerCase (rgbToken kw body) = rgbToken kw (toLowerCase body)"
    using assms by (auto simp: rgbToken_def toLowerCase_def lowerChar_def code_def)
  have "trim (rgbToken kw (toLowerCase body)) = rgbToken kw (toLowerCase body)"
    by (rule trim_id) (use assms in \<open>auto simp: rgbToken_def isSpace_def code_def\<close>)
  with l show ?thesis by simp
qed

lemma numeralsFrom_run:
  "list_all digitOrDot g \<Longrightarrow> numeralsFrom cur (g @ rest) = numeralsFrom (cur @ g) rest"
  by (induction g arbitrary: cur) simp_all

lemma numeralsFrom_gap:
  "list_all (\<lambda>c. \<not> digitOrDot c) t \<Longrightarrow> numeralsFrom [] (t @ rest) = numeralsFrom [] rest"
  by (induction t) simp_all

lemma numeralsFrom_sep:
  assumes "t \<noteq> []" "list_all (\<lambda>c. \<not> digitOrDot c) t" "cur \<noteq> []"
  shows "numeralsFrom cur (t @ rest) = cur # numeralsFrom [] rest"
proof -
  obtain x t' where t: "t = x # t'"
    using assms(1) by (cases t) auto
  then show ?thesis
    using assms(2,3) by (simp add: numeralsFrom_gap)
qed

lemma sep_not_digitOrDot: "commaOrSpace c \<Longrightarrow> \<not> digitOrDot c"
  by (auto simp: commaOrSpace_def isSpace_def digitOrDot_def isDigit_def code_def)

lemma digit_digitOrDot: "isDigit c \<Longrightarrow> digitOrDot c"
  by (simp add: digitOrDot_def)

lemma scan_tail:
  assumes "scanAlpha s c \<noteq> [] \<or> scanClose s c \<noteq> []"
  shows "\<exists>al s'. s = al @ CHR '')'' # s' \<and>
           (\<forall>x\<in>set al. isSpace x \<or> commaOrSlash x \<or> digitOrDot x)"
    "s \<noteq> []" "\<not> digitOrDot (hd s)"
proof -
  have "(\<exists>al s'. s = al @ CHR '')'' # s' \<and>
           (\<forall>x\<in>set al. isSpace x \<or> commaOrSlash x \<or> digitOrDot x)) \<and> s \<noteq> [] \<and> \<not> digitOrDot (hd s)"
    using assms
  proof
    assume "scanClose s c \<noteq> []"
    then obtain s' where s: "s = CHR '')'' # s'"
      by (cases s) (auto simp: scanClose_def split: if_splits)
    have "s = [] @ CHR '')'' # s'" using s by simp
    moreover have "\<not> digitOrDot (CHR '')'')" by (simp add: class_defs)
    ultimately show ?thesis
      using s by (metis empty_iff list.sel(1) list.set(1) list.distinct(1))
  next
    assume a: "scanAlpha s c \<noteq> []"
    show ?thesis
    proof (cases "dropWhile isSpace s")
      case Nil
      then show ?thesis
        using a unfolding scanAlpha_def Nil by simp
    next
      case (Cons x t)
      define u where "u = dropWhile isSpace t"
      have x: "commaOrSlash x" and g: "takeWhile digitOrDot u \<noteq> []"
        and r: "scanClose (dropWhile digitOrDot u) ((4, takeWhile digitOrDot u) # c) \<noteq> []"
        using a unfolding scanAlpha_def Cons u_def by (auto simp: Let_def split: if_splits)
      from r obtain s' where d: "dropWhile digitOrDot u = CHR '')'' # s'"
        by (cases "dropWhile digitOrDot u") (auto simp: scanClose_def split: if_splits)
      define al where "al = takeWhile isSpace s @ x # takeWhile isSpace t @ takeWhile digitOrDot u"
      have "s = takeWhile isSpace s @ x # t"
        using takeWhile_dropWhile_id[of isSpace s] Cons by simp
      moreover have "t = takeWhile isSpace t @ u"
        unfolding u_def by simp
      moreover have "u = takeWhile digitOrDot u @ CHR '')'' # s'"
        using takeWhile_dropWhile_id[of digitOrDot u] d by simp
      ultimately have s: "s = al @ CHR '')'' # s'"
        unfolding al_def by (metis append.assoc append_Cons)
      have c: "\<forall>x\<in>set al. isSpace x \<or> commaOrSlash x \<or> digitOrDot x"
        unfolding al_def using x by (auto dest: set_takeWhileD)
      have ne: "s \<noteq> []" using s by simp
      have "hd s = x \<or> isSpace (hd s)"
      proof (cases "takeWhile isSpace s")
        case Nil
        then have "s = x # t" using \<open>s = takeWhile isSpace s @ x # t\<close> by simp
        then show ?thesis by simp
      next
        case (Cons y ys)
        then have "hd s = y" using \<open>s = takeWhile isSpace s @ x # t\<close> by (metis hd_append2 list.distinct(1) list.sel(1))
        moreover have "isSpace y"
          using set_takeWhileD[of y isSpace s] Cons by simp
        ultimately show ?thesis by simp
      qed
      then have "\<not> digitOrDot (hd s)"
        using x class_disjoint(7)[of "hd s"] by (auto simp: commaOrSlash_def digitOrDot_def isDigit_def code_def)
      then show ?thesis
        using s c ne by blast
    qed
  qed
  then show "\<exists>al s'. s = al @ CHR '')'' # s' \<and>
           (\<forall>x\<in>set al. isSpace x \<or> commaOrSlash x \<or> digitOrDot x)"
    "s \<noteq> []" "\<not> digitOrDot (hd s)"
    by blast+
qed

lemma split_at_first:
  assumes "a @ x # r = b @ [x]" "x \<notin> set a" "x \<notin> set b"
  shows "a = b" "r = []"
proof -
  have tw: "x \<notin> set u \<Longrightarrow> takeWhile (\<lambda>c. c \<noteq> x) (u @ x # v) = u" for u v
    by (induction u) auto
  have "takeWhile (\<lambda>c. c \<noteq> x) (a @ x # r) = a"
    using assms(2) by (rule tw)
  moreover have "takeWhile (\<lambda>c. c \<noteq> x) (b @ [x]) = b"
    using assms(3) by (rule tw)
  ultimately show "a = b"
    using assms(1) by simp
  then show "r = []"
    using assms(1) by simp
qed

lemma accepted_body:
  assumes acc: "scanChannels (lb @ '')'') cs \<noteq> []" and np: "CHR '')'' \<notin> set lb"
  shows "CHR ''-'' \<notin> set lb" "CHR ''%'' \<notin> set lb" "\<not> hasDecimalChannel lb"
proof -
  define s where "s = lb @ '')''"
  define s1 where "s1 = dropWhile isDigit s"
  define s2 where "s2 = dropWhile commaOrSpace s1"
  define s3 where "s3 = dropWhile isDigit s2"
  define s4 where "s4 = dropWhile commaOrSpace s3"
  define s5 where "s5 = dropWhile isDigit s4"
  define g1 where "g1 = takeWhile isDigit s"
  define t1 where "t1 = takeWhile commaOrSpace s1"
  define g2 where "g2 = takeWhile isDigit s2"
  define t2 where "t2 = takeWhile commaOrSpace s3"
  define g3 where "g3 = takeWhile isDigit s4"
  define cs3 where "cs3 = (3, g3) # (2, g2) # (1, g1) # cs"
  have sc: "scanChannels s cs =
              (if g1 = [] \<or> t1 = [] \<or> g2 = [] \<or> t2 = [] \<or> g3 = []
               then [] else scanAlpha s5 cs3 @ scanClose s5 cs3)"
    by (simp add: scanChannels_def Let_def s1_def s2_def s3_def s4_def s5_def g1_def g2_def g3_def
          t1_def t2_def cs3_def)
  from acc have ne: "g1 \<noteq> []" "t1 \<noteq> []" "g2 \<noteq> []" "t2 \<noteq> []" "g3 \<noteq> []"
    and r: "scanAlpha s5 cs3 \<noteq> [] \<or> scanClose s5 cs3 \<noteq> []"
    unfolding s_def[symmetric] sc by (auto split: if_splits)
  have dg: "list_all isDigit g1" "list_all isDigit g2" "list_all isDigit g3"
    unfolding g1_def g2_def g3_def by (rule takeWhile_class)+
  have st: "list_all commaOrSpace t1" "list_all commaOrSpace t2"
    unfolding t1_def t2_def by (rule takeWhile_class)+
  have dd: "list_all digitOrDot g1" "list_all digitOrDot g2" "list_all digitOrDot g3"
    using dg by (auto simp: list_all_iff digit_digitOrDot)
  have sn: "list_all (\<lambda>c. \<not> digitOrDot c) t1" "list_all (\<lambda>c. \<not> digitOrDot c) t2"
    using st by (auto simp: list_all_iff sep_not_digitOrDot)
  have dec: "s = g1 @ t1 @ g2 @ t2 @ g3 @ s5"
    unfolding g1_def t1_def g2_def t2_def g3_def s5_def s4_def s3_def s2_def s1_def by simp
  obtain al s' where tail: "s5 = al @ CHR '')'' # s'"
    and alc: "\<forall>x\<in>set al. isSpace x \<or> commaOrSlash x \<or> digitOrDot x"
    using scan_tail(1)[OF r] by blast
  have s5: "s5 \<noteq> []" "\<not> digitOrDot (hd s5)"
    using scan_tail(2,3)[OF r] by simp_all
  define pre where "pre = g1 @ t1 @ g2 @ t2 @ g3 @ al"
  have allowed: "\<forall>x\<in>set pre. isDigit x \<or> commaOrSpace x \<or> isSpace x \<or> commaOrSlash x \<or> digitOrDot x"
    unfolding pre_def using dg st alc by (auto simp: list_all_iff)
  have body: "isDigit x \<or> commaOrSpace x \<or> isSpace x \<or> commaOrSlash x \<or> digitOrDot x \<Longrightarrow>
              x \<noteq> CHR '')'' \<and> x \<noteq> CHR ''-'' \<and> x \<noteq> CHR ''%''" for x
    by (auto simp: commaOrSpace_def isSpace_def commaOrSlash_def digitOrDot_def isDigit_def code_def)
  have pnp: "CHR '')'' \<notin> set pre"
    using allowed body by blast
  have "pre @ CHR '')'' # s' = lb @ [CHR '')'']"
    using dec tail by (simp add: pre_def s_def)
  then have lb: "pre = lb"
    using pnp np by (rule split_at_first(1))
  show "CHR ''-'' \<notin> set lb" "CHR ''%'' \<notin> set lb"
    using allowed body unfolding lb by blast+
  obtain y ys where s5c: "s5 = y # ys" and y: "\<not> digitOrDot y"
    using s5 by (cases s5) auto
  have "numerals s = numeralsFrom [] (g1 @ t1 @ g2 @ t2 @ g3 @ s5)"
    by (simp add: numerals_def dec[symmetric])
  also have "\<dots> = numeralsFrom g1 (t1 @ g2 @ t2 @ g3 @ s5)"
    using numeralsFrom_run[OF dd(1), of "[]"] by simp
  also have "\<dots> = g1 # numeralsFrom [] (g2 @ t2 @ g3 @ s5)"
    by (rule numeralsFrom_sep[OF ne(2) sn(1) ne(1)])
  also have "numeralsFrom [] (g2 @ t2 @ g3 @ s5) = numeralsFrom g2 (t2 @ g3 @ s5)"
    using numeralsFrom_run[OF dd(2), of "[]"] by simp
  also have "\<dots> = g2 # numeralsFrom [] (g3 @ s5)"
    by (rule numeralsFrom_sep[OF ne(4) sn(2) ne(3)])
  also have "numeralsFrom [] (g3 @ s5) = numeralsFrom g3 s5"
    using numeralsFrom_run[OF dd(3), of "[]"] by simp
  also have "\<dots> = g3 # numeralsFrom [] ys"
    using y ne(5) by (simp add: s5c)
  finally have n: "numerals s = g1 # g2 # g3 # numeralsFrom [] ys" .
  have "numerals s = numerals lb"
  proof -
    have "numeralsFrom cur (b @ '')'') = numeralsFrom cur b" for cur b
      by (induction b arbitrary: cur) (simp_all add: class_defs)
    then show ?thesis
      by (simp add: numerals_def s_def)
  qed
  then have "numerals lb = g1 # g2 # g3 # numeralsFrom [] ys"
    using n by simp
  then have "take 3 (numerals lb) = [g1, g2, g3]"
    by (simp add: numeral_3_eq_3)
  moreover have "CHR ''.'' \<notin> set g" if "list_all isDigit g" for g
    using that by (auto simp: list_all_iff isDigit_def code_def)
  ultimately show "\<not> hasDecimalChannel lb"
    using dg by (simp add: hasDecimalChannel_def)
qed

lemma rgbToken_passthrough:
  assumes kw: "kw = ''rgb'' \<or> kw = ''rgba''"
    and ne: "body \<noteq> []" and np: "CHR '')'' \<notin> set body"
    and inner: "rgbStringToRgb (tl (trim (toLowerCase (rgbToken kw body)))) = None"
    and bad: "CHR ''-'' \<in> set body \<or> CHR ''%'' \<in> set body \<or> hasDecimalChannel body"
  shows "rgbStringToRgb (trim (toLowerCase (rgbToken kw body))) = None"
    "convertCallback opts (rgbToken kw body) = Inr (rgbToken kw body)"
    "convertCssColors (rgbToken kw body) opts = Inr (rgbToken kw body)"
proof -
  define lb where "lb = toLowerCase body"
  have cl: "trim (toLowerCase (rgbToken kw body)) = rgbToken kw lb"
    unfolding lb_def by (rule rgbToken_cleaned[OF kw])
  have lnp: "CHR '')'' \<notin> set lb"
    unfolding lb_def by (rule lower_keeps(3)[OF np])
  have lbad: "CHR ''-'' \<in> set lb \<or> CHR ''%'' \<in> set lb \<or> hasDecimalChannel lb"
    using bad lower_keeps(1,2)[of body] unfolding lb_def by (auto simp: hasDecimalChannel_lower)
  have sc: "scanChannels (lb @ '')'') [] = []"
    using accepted_body[OF _ lnp, of "[]"] lbad by blast
  have r0: "run rgbPattern (rgbToken kw lb, []) = []"
    using kw sc by (auto simp: run_rgbPattern scanRgb_def rgbToken_def)
  obtain x xs where tok: "rgbToken kw lb = x # xs"
    using kw by (auto simp: rgbToken_def)
  have "exec rgbPattern xs = None"
    using inner unfolding cl tok by (simp add: rgbStringToRgb_None)
  then have "exec rgbPattern (x # xs) = None"
    using r0 unfolding tok by (simp only: exec_Cons_None simp_thms)
  then show p: "rgbStringToRgb (trim (toLowerCase (rgbToken kw body))) = None"
    unfolding cl tok by (simp only: rgbStringToRgb_None)
  have sw: "startsWith (rgbToken kw lb) ''rgb''" "\<not> startsWith (rgbToken kw lb) ''#''"
    using kw by (auto simp: rgbToken_def startsWith_def)
  show cb: "convertCallback opts (rgbToken kw body) = Inr (rgbToken kw body)"
    using p by (simp add: convertCallback_def convertMatch_def parseColor_def cl sw)
  have bnp: "\<forall>c\<in>set body. notParen c"
    using np by (auto simp: notParen_def)
  obtain cs' where run: "run COLOR_REGEX (rgbToken kw body, []) = [([], cs')]"
    using kw run_COLOR_REGEX_rgb[OF ne bnp, of "[]"] run_COLOR_REGEX_rgba[OF ne bnp, of "[]"]
    unfolding rgbToken_def by auto
  obtain y ys where t: "rgbToken kw body = y # ys"
    using kw by (auto simp: rgbToken_def)
  have "replaceAll COLOR_REGEX (convertCallback opts) (y # ys)
          = (case convertCallback opts (y # ys) of Inl e \<Rightarrow> Inl e | Inr u \<Rightarrow> Inr u)"
    by (rule replaceAll_whole[OF run[unfolded t] COLOR_REGEX_nonempty])
  then show "convertCssColors (rgbToken kw body) opts = Inr (rgbToken kw body)"
    using cb by (simp add: convertCssColors_def t[symmetric])
qed

lemma lowerChar_r: "lowerChar c = CHR ''r'' \<longleftrightarrow> c = CHR ''r'' \<or> c = CHR ''R''"
proof
  assume "lowerChar c = CHR ''r''"
  then have "code (lowerChar c) = 114" by (simp add: code_def)
  then have "code c = 114 \<or> code c = 82" by (simp add: code_lowerChar split: if_splits)
  then show "c = CHR ''r'' \<or> c = CHR ''R''"
    by (simp add: char_eq_code[of c] code_def)
next
  assume "c = CHR ''r'' \<or> c = CHR ''R''"
  then show "lowerChar c = CHR ''r''" by (auto simp: lowerChar_def code_def char_of_eq_iff)
qed

lemma rgbToken_no_inner:
  assumes kw: "kw = ''rgb'' \<or> kw = ''rgba''"
    and nr: "CHR ''r'' \<notin> set body" "CHR ''R'' \<notin> set body"
  shows "rgbStringToRgb (tl (trim (toLowerCase (rgbToken kw body)))) = None"
proof -
  have l: "CHR ''r'' \<notin> set (toLowerCase body)"
  proof
    assume "CHR ''r'' \<in> set (toLowerCase body)"
    then obtain c where c: "c \<in> set body" "lowerChar c = CHR ''r''"
      unfolding toLowerCase_def by auto
    from c(2) have "c = CHR ''r'' \<or> c = CHR ''R''"
      by (simp only: lowerChar_r)
    with c(1) nr show False by blast
  qed
  have "tl (rgbToken kw (toLowerCase body)) = ''gb('' @ toLowerCase body @ '')'' \<or>
        tl (rgbToken kw (toLowerCase body)) = ''gba('' @ toLowerCase body @ '')''"
    using kw by (auto simp: rgbToken_def)
  then have "CHR ''r'' \<notin> set (tl (rgbToken kw (toLowerCase body)))"
    using l by (elim disjE) simp_all
  then show ?thesis
    unfolding rgbToken_cleaned[OF kw] rgbStringToRgb_None by (rule exec_rgbPattern_no_r)
qed

text \<open>
  Claim C10 (as stated) fails: the tokenizer takes \<^verbatim>\<open>rgb(-1 rgb(1,2,3)\<close> as one token, and
  the rgb parser, whose pattern is not anchored, finds \<^verbatim>\<open>rgb(1,2,3)\<close> inside it; the token,
  which contains the negative numeral \<^verbatim>\<open>-1\<close>, is parsed and converted.
\<close>

theorem c10_inner_rgb_counterexample:
  "run COLOR_REGEX (''rgb(-1 rgb(1,2,3)'', []) = [([], [(3, ''rgb(-1 rgb(1,2,3)''), (4, [])])]
   \<and> rgbStringToRgb (trim (toLowerCase ''rgb(-1 rgb(1,2,3)''))
       = Some \<lparr>rgb_r = Fin 1, rgb_g = Fin 2, rgb_b = Fin 3, rgb_a = None\<rparr>
   \<and> convertCssColors ''rgb(-1 rgb(1,2,3)'' (Some \<lparr>format = ''hex'', useCssSyntax = True\<rparr>)
       = Inr ''#010203''
   \<and> convertCssColors ''rgb(-1 rgb(1,2,3)'' (Some \<lparr>format = ''hex'', useCssSyntax = True\<rparr>)
       \<noteq> Inr ''rgb(-1 rgb(1,2,3)''"
  by (simp add: eval_defs)

text \<open>
  Claim C10, amended.  In whatever way the rgb pattern matches a text, groups 1 to 3 are
  unsigned decimal integers, and group 4, when it takes part, is made of digits and dots and
  stands directly before the closing parenthesis.  Hence an rgb or rgba token, inside which
  the rgb parser finds no rgb text of its own (it finds nothing in the cleaned token without
  its first letter), and which contains a minus sign, a percent sign, or a decimal point in
  one of its first three numerals, fails the rgb parse, and the callback and the conversion
  return the token as it is, whatever the options are.  A token without the letter r between
  its parentheses has no rgb text inside.  In particular this holds for a token of three
  channels written with digits, minus signs and decimal points, in which a channel has a
  sign or a decimal point or the alpha ends with a percent sign.
\<close>

theorem c10_rgb_sign_decimal_percent_passthrough:
  "((s', cs') \<in> set (run rgbPattern (s, [])) \<longrightarrow>
      (\<exists>g1 g2 g3. map_of cs' 1 = Some g1 \<and> map_of cs' 2 = Some g2 \<and> map_of cs' 3 = Some g3 \<and>
         isUnsignedInteger g1 \<and> isUnsignedInteger g2 \<and> isUnsignedInteger g3) \<and>
      (case map_of cs' 4 of
         None \<Rightarrow> True
       | Some g4 \<Rightarrow> isDigitsAndDots g4 \<and> suffix (g4 @ '')'' @ s') s))
   \<and> ((k = ''rgb'' \<or> k = ''rgba'') \<and> body \<noteq> [] \<and> CHR '')'' \<notin> set body \<and>
       rgbStringToRgb (tl (trim (toLowerCase (rgbToken k body)))) = None \<and>
       (CHR ''-'' \<in> set body \<or> CHR ''%'' \<in> set body \<or> hasDecimalChannel body) \<longrightarrow>
         rgbStringToRgb (trim (toLowerCase (rgbToken k body))) = None \<and>
         convertCallback opts (rgbToken k body) = Inr (rgbToken k body) \<and>
         convertCssColors (rgbToken k body) opts = Inr (rgbToken k body))
   \<and> ((k = ''rgb'' \<or> k = ''rgba'') \<and> CHR ''r'' \<notin> set body \<and> CHR ''R'' \<notin> set body \<longrightarrow>
         rgbStringToRgb (tl (trim (toLowerCase (rgbToken k body)))) = None)
   \<and> ((kw = ''rgb'' \<or> kw = ''rgba'') \<and>
       isChannelText c1 \<and> isSeparator s1 \<and> isChannelText c2 \<and> isSeparator s2 \<and>
       isChannelText c3 \<and> isAlphaText al \<and>
       (\<not> isUnsignedInteger c1 \<or> \<not> isUnsignedInteger c2 \<or> \<not> isUnsignedInteger c3 \<or>
        endsWith al ''%'') \<longrightarrow>
         rgbStringToRgb (rgbTokenText kw c1 s1 c2 s2 c3 al) = None \<and>
         convertCallback opts (rgbTokenText kw c1 s1 c2 s2 c3 al)
           = Inr (rgbTokenText kw c1 s1 c2 s2 c3 al) \<and>
         convertCssColors (rgbTokenText kw c1 s1 c2 s2 c3 al) opts
           = Inr (rgbTokenText kw c1 s1 c2 s2 c3 al))"
proof (intro conjI impI)
  assume m: "(s', cs') \<in> set (run rgbPattern (s, []))"
  show "\<exists>g1 g2 g3. map_of cs' 1 = Some g1 \<and> map_of cs' 2 = Some g2 \<and> map_of cs' 3 = Some g3 \<and>
         isUnsignedInteger g1 \<and> isUnsignedInteger g2 \<and> isUnsignedInteger g3"
    by (rule rgbPattern_groups(1)[OF m])
  show "case map_of cs' 4 of
         None \<Rightarrow> True
       | Some g4 \<Rightarrow> isDigitsAndDots g4 \<and> suffix (g4 @ '')'' @ s') s"
    by (rule rgbPattern_groups(2)[OF m])
next
  assume a: "(k = ''rgb'' \<or> k = ''rgba'') \<and> body \<noteq> [] \<and> CHR '')'' \<notin> set body \<and>
       rgbStringToRgb (tl (trim (toLowerCase (rgbToken k body)))) = None \<and>
       (CHR ''-'' \<in> set body \<or> CHR ''%'' \<in> set body \<or> hasDecimalChannel body)"
  then have k: "k = ''rgb'' \<or> k = ''rgba''" and ne: "body \<noteq> []" and np: "CHR '')'' \<notin> set body"
    and inner: "rgbStringToRgb (tl (trim (toLowerCase (rgbToken k body)))) = None"
    and bad: "CHR ''-'' \<in> set body \<or> CHR ''%'' \<in> set body \<or> hasDecimalChannel body"
    by simp_all
  show "rgbStringToRgb (trim (toLowerCase (rgbToken k body))) = None"
    by (rule rgbToken_passthrough(1)[OF k ne np inner bad])
  show "convertCallback opts (rgbToken k body) = Inr (rgbToken k body)"
    by (rule rgbToken_passthrough(2)[OF k ne np inner bad])
  show "convertCssColors (rgbToken k body) opts = Inr (rgbToken k body)"
    by (rule rgbToken_passthrough(3)[OF k ne np inner bad])
next
  assume "(k = ''rgb'' \<or> k = ''rgba'') \<and> CHR ''r'' \<notin> set body \<and> CHR ''R'' \<notin> set body"
  then have k: "k = ''rgb'' \<or> k = ''rgba''" and nr: "CHR ''r'' \<notin> set body" "CHR ''R'' \<notin> set body"
    by simp_all
  show "rgbStringToRgb (tl (trim (toLowerCase (rgbToken k body)))) = None"
    by (rule rgbToken_no_inner[OF k nr])
next
  assume a: "(kw = ''rgb'' \<or> kw = ''rgba'') \<and>
       isChannelText c1 \<and> isSeparator s1 \<and> isChannelText c2 \<and> isSeparator s2 \<and>
       isChannelText c3 \<and> isAlphaText al \<and>
       (\<not> isUnsignedInteger c1 \<or> \<not> isUnsignedInteger c2 \<or> \<not> isUnsignedInteger c3 \<or>
        endsWith al ''%'')"
  then have kw: "kw = ''rgb'' \<or> kw = ''rgba''"
    and c: "isChannelText c1" "isChannelText c2" "isChannelText c3"
    and s: "isSeparator s1" "isSeparator s2"
    and al: "isAlphaText al"
    by simp_all
  have "isUnsignedInteger c = list_all isDigit c" if "isChannelText c" for c
    using channel_chars(1)[OF that] by (simp add: isUnsignedInteger_def)
  then have bad: "\<not> list_all isDigit c1 \<or> \<not> list_all isDigit c2 \<or> \<not> list_all isDigit c3 \<or>
                  endsWith al ''%''"
    using a c by blast
  show "rgbStringToRgb (rgbTokenText kw c1 s1 c2 s2 c3 al) = None"
    by (rule rgbToken_callback(1)[OF kw c s al bad])
  show "convertCallback opts (rgbTokenText kw c1 s1 c2 s2 c3 al)
           = Inr (rgbTokenText kw c1 s1 c2 s2 c3 al)"
    by (rule rgbToken_callback(2)[OF kw c s al bad])
  show "convertCssColors (rgbTokenText kw c1 s1 c2 s2 c3 al) opts
           = Inr (rgbTokenText kw c1 s1 c2 s2 c3 al)"
    by (rule rgbToken_convert[OF kw c s al bad])
qed

theorem c10_witness:
  "([], [(4, ''0.5''), (3, ''3''), (2, ''2''), (1, ''1'')])
     \<in> set (run rgbPattern (''rgba(1, 2, 3, 0.5)'', []))
   \<and> isUnsignedInteger ''1'' \<and> isUnsignedInteger ''2'' \<and> isUnsignedInteger ''3''
   \<and> isDigitsAndDots ''0.5''
   \<and> CHR '')'' \<notin> set '' -20, 1.5, 2 / 50%'' \<and> CHR ''-'' \<in> set '' -20, 1.5, 2 / 50%''
   \<and> CHR ''%'' \<in> set '' -20, 1.5, 2 / 50%'' \<and> hasDecimalChannel '' -20, 1.5, 2 / 50%''
   \<and> CHR ''r'' \<notin> set '' -20, 1.5, 2 / 50%'' \<and> CHR ''R'' \<notin> set '' -20, 1.5, 2 / 50%''
   \<and> rgbStringToRgb (tl (trim (toLowerCase ''rgb( -20, 1.5, 2 / 50%)''))) = None
   \<and> rgbStringToRgb (trim (toLowerCase ''rgb( -20, 1.5, 2 / 50%)'')) = None
   \<and> convertCssColors ''rgb( -20, 1.5, 2 / 50%)'' (Some \<lparr>format = ''hex'', useCssSyntax = True\<rparr>)
       = Inr ''rgb( -20, 1.5, 2 / 50%)''
   \<and> isChannelText ''300'' \<and> isSeparator '', '' \<and> isChannelText ''-20'' \<and> isChannelText ''12.5''
   \<and> isAlphaText '', 50%'' \<and> \<not> isUnsignedInteger ''-20'' \<and> \<not> isUnsignedInteger ''12.5''
   \<and> endsWith '', 50%'' ''%''
   \<and> rgbStringToRgb ''rgba(300, -20, 12.5, 50%)'' = None
   \<and> convertCssColors ''rgba(300, -20, 12.5, 50%)'' (Some \<lparr>format = ''hex'', useCssSyntax = True\<rparr>)
       = Inr ''rgba(300, -20, 12.5, 50%)''"
proof -
  have m: "([], [(4, ''0.5''), (3, ''3''), (2, ''2''), (1, ''1'')])
             \<in> set (run rgbPattern (''rgba(1, 2, 3, 0.5)'', []))"
    by (simp add: run_rgbPattern scanRgb_def scanChannels_def scanAlpha_def scanClose_def Let_def
          class_defs)
  have b: "CHR '')'' \<notin> set '' -20, 1.5, 2 / 50%''" "CHR ''-'' \<in> set '' -20, 1.5, 2 / 50%''"
    "CHR ''%'' \<in> set '' -20, 1.5, 2 / 50%''" "hasDecimalChannel '' -20, 1.5, 2 / 50%''"
    "CHR ''r'' \<notin> set '' -20, 1.5, 2 / 50%''" "CHR ''R'' \<notin> set '' -20, 1.5, 2 / 50%''"
    by (simp_all add: hasDecimalChannel_def numerals_def class_defs)
  have g: "rgbToken ''rgb'' '' -20, 1.5, 2 / 50%'' = ''rgb( -20, 1.5, 2 / 50%)''"
    by (simp add: rgbToken_def)
  have h: "isChannelText ''300''" "isSeparator '', ''" "isChannelText ''-20''" "isChannelText ''12.5''"
    "isAlphaText '', 50%''" "\<not> isUnsignedInteger ''-20''" "\<not> isUnsignedInteger ''12.5''"
    "endsWith '', 50%'' ''%''"
    by (simp_all add: isChannelText_def isSeparator_def isAlphaText_def isUnsignedInteger_def
          endsWith_def Let_def class_defs)
  have t: "rgbTokenText ''rgba'' ''300'' '', '' ''-20'' '', '' ''12.5'' '', 50%''
             = ''rgba(300, -20, 12.5, 50%)''"
    by (simp add: rgbTokenText_def)
  show ?thesis
    using c10_rgb_sign_decimal_percent_passthrough[of "[]"
        "[(4, ''0.5''), (3, ''3''), (2, ''2''), (1, ''1'')]" "''rgba(1, 2, 3, 0.5)''"
        "''rgb''" "'' -20, 1.5, 2 / 50%''" "Some \<lparr>format = ''hex'', useCssSyntax = True\<rparr>"
        "''rgba''" "''300''" "'', ''" "''-20''" "'', ''" "''12.5''" "'', 50%''"] m b g h t
    by simp
qed

section \<open>Keywords in upper case\<close>


lemma run_Group_nil: "run (Group k r) st = [] \<longleftrightarrow> run r st = []"
  by (cases st) simp













end
